theory Spec2Isabelle
  imports Complex_Main "HOL-Library.Log_Nat"
begin

text \<open>
  A shallow embedding of the integration core of the pizza operations dashboard: the
  integration service, the order form, the integrations page (the Connection Manager)
  and the webhook monitor. Each handler of a component is a function on the component's
  state; an \<open>async\<close> handler is split at its \<open>await\<close>s, and the settling of a
  call is an event of its own, so that other events can come in between. The remote
  service is an input: every result it can give is a value of an event.
\<close>

section \<open>JavaScript values\<close>

subsection \<open>Objects\<close>

text \<open>
  A plain JavaScript object is the map from its own property keys to their values.
  Reading a missing key gives \<open>undefined\<close>, the \<open>None\<close> of the map. The order in which
  JavaScript enumerates the keys is not modelled: nothing below depends on it.
\<close>

type_synonym 'v obj = "string \<rightharpoonup> 'v"

datatype json =
    JNull
  | JBool bool
  | JNum int
  | JStr string
  | JArr "json list"
  | JObj "string \<Rightarrow> json option"

text \<open>
  Defining a data property (a property of an object literal, a computed key
  \<open>[name]: value\<close>, a property copied by a spread): the key takes the value, whether
  the object had the key or not.
\<close>

definition obj_define :: "string \<Rightarrow> 'v \<Rightarrow> 'v obj \<Rightarrow> 'v obj" where
  "obj_define k v ob = ob(k \<mapsto> v)"

text \<open>
  The assignment \<open>ob[k] = v\<close> of a string \<open>v\<close> to an object created by \<open>{}\<close>. The
  object inherits from \<open>Object.prototype\<close>, whose only accessor property is
  \<open>__proto__\<close>; its setter ignores a value that is neither an object nor null, so that
  assignment creates no property. Every other key is defined as above.
\<close>

definition obj_assign :: "string \<Rightarrow> 'v \<Rightarrow> 'v obj \<Rightarrow> 'v obj" where
  "obj_assign k v ob = (if k = ''__proto__'' then ob else obj_define k v ob)"

text \<open>
  The spread \<open>...src\<close> in an object literal whose properties written so far are
  \<open>tgt\<close>: every own property of \<open>src\<close> is defined on the result, so a key of \<open>src\<close>
  replaces the same key of \<open>tgt\<close>.
\<close>

definition obj_spread :: "'v obj \<Rightarrow> 'v obj \<Rightarrow> 'v obj" where
  "obj_spread tgt src = tgt ++ src"

subsection \<open>Numbers\<close>

text \<open>
  A JavaScript number is an IEEE-754 double: a finite value, an infinity or NaN. A finite
  double is modelled by the rational it denotes; negative zero is not told from zero
  (sums, products and \<open>toFixed\<close> give the same for both).
\<close>

datatype number = Finite rat | PosInfinity | NegInfinity | NaN

text \<open>
  \<open>pow2 e\<close> is \<open>2\<close> to the integer power \<open>e\<close>, and \<open>binade x\<close> the exponent \<open>e\<close> with
  \<open>2^e \<le> |x| < 2^(e+1)\<close>, for \<open>x\<close> other than zero. The doubles around \<open>x\<close> are the
  multiples of \<open>2\<close> to the power \<open>ulp_exponent x\<close>: 53 significant bits, and the spacing
  \<open>2^-1074\<close> of the subnormal range at the bottom.
\<close>

definition pow2 :: "int \<Rightarrow> rat" where
  "pow2 e = (if 0 \<le> e then of_int (2 ^ nat e) else 1 / of_int (2 ^ nat (- e)))"

definition binade :: "rat \<Rightarrow> int" where
  "binade x =
     (let d = bitlen (fst (quotient_of \<bar>x\<bar>)) - bitlen (snd (quotient_of \<bar>x\<bar>))
      in if pow2 d \<le> \<bar>x\<bar> then d else d - 1)"

definition ulp_exponent :: "rat \<Rightarrow> int" where
  "ulp_exponent x = max (binade x - 52) (- 1074)"


text \<open>
  Rounding the exact result of an operation to a double: to the nearest multiple of the
  spacing, a tie going to the even multiple, and to an infinity when the rounded value
  reaches \<open>2^1024\<close>.
\<close>

definition round_half_even :: "rat \<Rightarrow> int" where
  "round_half_even q =
     (let f = \<lfloor>q\<rfloor>; r = q - of_int f
      in if r < 1 / 2 then f else if 1 / 2 < r then f + 1 else if even f then f else f + 1)"

definition round_double :: "rat \<Rightarrow> number" where
  "round_double x =
     (if x = 0 then Finite 0
      else
        let u = pow2 (ulp_exponent x);
            y = of_int (round_half_even (x / u)) * u
        in if pow2 1024 \<le> \<bar>y\<bar> then (if 0 < x then PosInfinity else NegInfinity)
           else Finite y)"

text \<open>The operators \<open>+\<close> and \<open>*\<close> on numbers.\<close>

fun number_add :: "number \<Rightarrow> number \<Rightarrow> number" where
  "number_add (Finite a) (Finite b) = round_double (a + b)"
| "number_add NaN y = NaN"
| "number_add x NaN = NaN"
| "number_add PosInfinity NegInfinity = NaN"
| "number_add NegInfinity PosInfinity = NaN"
| "number_add PosInfinity y = PosInfinity"
| "number_add x PosInfinity = PosInfinity"
| "number_add NegInfinity y = NegInfinity"
| "number_add x NegInfinity = NegInfinity"

definition signed_infinity :: "bool \<Rightarrow> number" where
  "signed_infinity positive = (if positive then PosInfinity else NegInfinity)"

fun number_mul :: "number \<Rightarrow> number \<Rightarrow> number" where
  "number_mul (Finite a) (Finite b) = round_double (a * b)"
| "number_mul NaN y = NaN"
| "number_mul x NaN = NaN"
| "number_mul PosInfinity (Finite b) = (if b = 0 then NaN else signed_infinity (0 < b))"
| "number_mul NegInfinity (Finite b) = (if b = 0 then NaN else signed_infinity (b < 0))"
| "number_mul (Finite a) PosInfinity = (if a = 0 then NaN else signed_infinity (0 < a))"
| "number_mul (Finite a) NegInfinity = (if a = 0 then NaN else signed_infinity (a < 0))"
| "number_mul PosInfinity PosInfinity = PosInfinity"
| "number_mul NegInfinity NegInfinity = PosInfinity"
| "number_mul PosInfinity NegInfinity = NegInfinity"
| "number_mul NegInfinity PosInfinity = NegInfinity"

subsection \<open>Number.prototype.toFixed\<close>

text \<open>The decimal digits of a non-negative integer, without leading zeros.\<close>

definition digit_char :: "int \<Rightarrow> char" where
  "digit_char d = ''0123456789'' ! nat d"

function digits :: "int \<Rightarrow> string" where
  "digits n = (if n < 10 then [digit_char n] else digits (n div 10) @ [digit_char (n mod 10)])"
  by pat_completeness auto
termination
  by (relation "measure nat") auto

declare digits.simps [simp del]

text \<open>
  The string \<open>toFixed\<close> returns is either written out, or, for a finite number of
  magnitude \<open>10^21\<close> or more, the sign followed by what \<open>Number::toString\<close> gives for the
  magnitude. ECMA-262 writes that in exponent notation (\<open>1e+21\<close>) and leaves its last
  digit open; the model keeps the sign and the magnitude.
\<close>

datatype js_string = Str string | ExponentNotation string rat

text \<open>
  \<open>x.toFixed(f)\<close> for \<open>0 \<le> f \<le> 100\<close>, by the steps of ECMA-262: the integer \<open>n\<close> for
  which \<open>n / 10^f\<close> is nearest to the magnitude (the larger one of two), its digits,
  padded with zeros to \<open>f + 1\<close> characters, and the point before the last \<open>f\<close>.
\<close>

definition toFixed :: "nat \<Rightarrow> number \<Rightarrow> js_string" where
  "toFixed f x =
     (case x of
        NaN \<Rightarrow> Str ''NaN''
      | PosInfinity \<Rightarrow> Str ''Infinity''
      | NegInfinity \<Rightarrow> Str ''-Infinity''
      | Finite r \<Rightarrow>
          let s = (if r < 0 then ''-'' else []);
              a = \<bar>r\<bar>
          in if 10 ^ 21 \<le> a then ExponentNotation s a
             else
               let n = \<lfloor>a * 10 ^ f + 1 / 2\<rfloor>;
                   m = digits n;
                   m = (if f = 0 then m
                        else
                          let m = (if length m \<le> f
                                   then replicate (f + 1 - length m) CHR ''0'' @ m else m)
                          in take (length m - f) m @ ''.'' @ drop (length m - f) m)
               in Str (s @ m))"



section \<open>Integration service (src/services/integrationService.js)\<close>

text \<open>
  The error thrown by a failed request. The handlers read
  \<open>err.response?.data?.message\<close>: the response, its body and the message may each be
  missing.
\<close>

record error_body =
  message :: "string option"

record error_response =
  data :: "error_body option"

record transport_error =
  response :: "error_response option"

datatype http_verb = GET | POST

record http_request =
  verb :: http_verb
  url :: string
  body :: "json option"

definition API_BASE_URL :: string where
  "API_BASE_URL = ''/api/integration''"

text \<open>
  The remote service is a parameter: it answers a request with the decoded body or with
  the error axios throws. Each operation returns the request it issued, the lines it
  wrote to the console, and the value it resolves with or the error it rethrows.
\<close>

type_synonym backend = "http_request \<Rightarrow> transport_error + json"

record service_run =
  issued :: http_request
  console :: "string list"
  outcome :: "transport_error + json"

definition perform :: "backend \<Rightarrow> http_request \<Rightarrow> string \<Rightarrow> service_run" where
  "perform net req failure_line =
     (case net req of
        Inr d \<Rightarrow> \<lparr>issued = req, console = [], outcome = Inr d\<rparr>
      | Inl e \<Rightarrow> \<lparr>issued = req, console = [failure_line], outcome = Inl e\<rparr>)"

definition getAdapters :: "backend \<Rightarrow> service_run" where
  "getAdapters net =
     perform net \<lparr>verb = GET, url = API_BASE_URL @ ''/adapters'', body = None\<rparr>
       ''Error fetching adapters:''"

definition getConnections :: "backend \<Rightarrow> service_run" where
  "getConnections net =
     perform net \<lparr>verb = GET, url = API_BASE_URL @ ''/connections'', body = None\<rparr>
       ''Error fetching connections:''"

definition connect :: "backend \<Rightarrow> string \<Rightarrow> json \<Rightarrow> service_run" where
  "connect net system credentials =
     perform net
       \<lparr>verb = POST, url = API_BASE_URL @ ''/connect/'' @ system, body = Some credentials\<rparr>
       (''Error connecting to '' @ system @ '':'')"

definition disconnect :: "backend \<Rightarrow> string \<Rightarrow> service_run" where
  "disconnect net connectionId =
     perform net
       \<lparr>verb = POST, url = API_BASE_URL @ ''/disconnect/'' @ connectionId, body = None\<rparr>
       (''Error disconnecting connection '' @ connectionId @ '':'')"

definition send :: "backend \<Rightarrow> string \<Rightarrow> string \<Rightarrow> json \<Rightarrow> service_run" where
  "send net system endpoint payload =
     perform net
       \<lparr>verb = POST, url = API_BASE_URL @ ''/send/'' @ system @ ''/'' @ endpoint,
        body = Some payload\<rparr>
       (''Error sending data to '' @ system @ ''/'' @ endpoint @ '':'')"

definition getWebhooks :: "backend \<Rightarrow> service_run" where
  "getWebhooks net =
     perform net \<lparr>verb = GET, url = API_BASE_URL @ ''/webhooks'', body = None\<rparr>
       ''Error fetching webhooks:''"

text \<open>\<open>registerWebhook\<close> posts the object literal \<open>{ path, ...options }\<close>.\<close>

definition registerWebhook_body :: "string \<Rightarrow> json obj \<Rightarrow> json obj" where
  "registerWebhook_body path options = obj_spread [''path'' \<mapsto> JStr path] options"

definition registerWebhook :: "backend \<Rightarrow> string \<Rightarrow> json obj \<Rightarrow> service_run" where
  "registerWebhook net path options =
     perform net
       \<lparr>verb = POST, url = API_BASE_URL @ ''/webhooks/register'',
        body = Some (JObj (registerWebhook_body path options))\<rparr>
       ''Error registering webhook:''"


section \<open>Order form (src/components/OrderForm.jsx)\<close>

text \<open>
  The quantity is what \<open>parseInt(...) || 0\<close> stores, an integer. The price is what
  \<open>parseFloat(...) || 0\<close> stores, a finite double, given by the rational it denotes.
\<close>

record item =
  item_name :: string
  quantity :: int
  price :: rat

record order_data =
  customerName :: string
  customerEmail :: string
  customerPhone :: string
  items :: "item list"
  order_notes :: string
  deliveryAddress :: string
  paymentMethod :: string

datatype order_status = Processing | Success | Error

text \<open>The calls of \<open>integrationService.send(system, endpoint, data)\<close> the form makes.\<close>

datatype send_call = Send string string order_data

text \<open>
  The component state: the five \<open>useState\<close> cells, then the calls issued so far and
  the number of submissions whose \<open>send\<close> has not settled yet.
\<close>

record order_form =
  orderData :: order_data
  order_isSubmitting :: bool
  orderStatus :: "order_status option"
  orderResponse :: "json option"
  order_error :: "string option"
  order_calls :: "send_call list"
  order_pending :: nat

definition blank_item :: item where
  "blank_item = \<lparr>item_name = [], quantity = 1, price = 0\<rparr>"

definition blank_order :: order_data where
  "blank_order =
     \<lparr>customerName = [], customerEmail = [], customerPhone = [],
      items = [blank_item], order_notes = [], deliveryAddress = [],
      paymentMethod = ''card''\<rparr>"

definition order_form_initial :: order_form where
  "order_form_initial =
     \<lparr>orderData = blank_order, order_isSubmitting = False, orderStatus = None,
      orderResponse = None, order_error = None, order_calls = [], order_pending = 0\<rparr>"

text \<open>
  \<open>handleInputChange\<close> writes \<open>[name]: value\<close> with the \<open>name\<close> attribute of the
  input that changed; the form renders six such inputs.
\<close>

datatype input_name =
  CustomerName | CustomerEmail | CustomerPhone | DeliveryAddress | Notes | PaymentMethod

fun set_input :: "input_name \<Rightarrow> string \<Rightarrow> order_data \<Rightarrow> order_data" where
  "set_input CustomerName v od = od\<lparr>customerName := v\<rparr>"
| "set_input CustomerEmail v od = od\<lparr>customerEmail := v\<rparr>"
| "set_input CustomerPhone v od = od\<lparr>customerPhone := v\<rparr>"
| "set_input DeliveryAddress v od = od\<lparr>deliveryAddress := v\<rparr>"
| "set_input Notes v od = od\<lparr>order_notes := v\<rparr>"
| "set_input PaymentMethod v od = od\<lparr>paymentMethod := v\<rparr>"

definition handleInputChange :: "input_name \<Rightarrow> string \<Rightarrow> order_form \<Rightarrow> order_form" where
  "handleInputChange n v st = st\<lparr>orderData := set_input n v (orderData st)\<rparr>"

text \<open>
  \<open>handleItemChange(index, field, value)\<close> is called by the inputs of the rendered rows
  with the row's own index and one of the three fields. An index that is no row is outside
  the model (\<open>None\<close>).
\<close>

datatype item_edit = EditName string | EditQuantity int | EditPrice rat

fun edit_item :: "item_edit \<Rightarrow> item \<Rightarrow> item" where
  "edit_item (EditName v) it = it\<lparr>item_name := v\<rparr>"
| "edit_item (EditQuantity v) it = it\<lparr>quantity := v\<rparr>"
| "edit_item (EditPrice v) it = it\<lparr>price := v\<rparr>"

definition handleItemChange :: "nat \<Rightarrow> item_edit \<Rightarrow> order_form \<Rightarrow> order_form option" where
  "handleItemChange index e st =
     (let its = items (orderData st) in
      if index < length its
      then Some (st\<lparr>orderData :=
                   (orderData st)\<lparr>items := its[index := edit_item e (its ! index)]\<rparr>\<rparr>)
      else None)"

definition addItem :: "order_form \<Rightarrow> order_form" where
  "addItem st =
     st\<lparr>orderData := (orderData st)\<lparr>items := items (orderData st) @ [blank_item]\<rparr>\<rparr>"

text \<open>
  \<open>xs.splice(index, 1)\<close> on a copy of the list, for an integer \<open>index\<close>: a negative
  index counts from the end and stops at the front, an index past the end deletes
  nothing.
\<close>

definition splice1 :: "int \<Rightarrow> 'a list \<Rightarrow> 'a list" where
  "splice1 index xs =
     (let len = int (length xs);
          start = (if index < 0 then max (len + index) 0 else min index len)
      in take (nat start) xs @ drop (nat start + 1) xs)"

definition removeItem :: "int \<Rightarrow> order_form \<Rightarrow> order_form" where
  "removeItem index st =
     (if length (items (orderData st)) = 1 then st
      else st\<lparr>orderData := (orderData st)\<lparr>items := splice1 index (items (orderData st))\<rparr>\<rparr>)"

text \<open>
  \<open>calculateTotal\<close>: \<open>reduce\<close> from \<open>0\<close>, adding \<open>item.quantity * item.price\<close> for
  each item in order, then \<open>toFixed(2)\<close>.
\<close>

definition order_total :: "item list \<Rightarrow> number" where
  "order_total its =
     foldl (\<lambda>total it.
              number_add total (number_mul (Finite (of_int (quantity it))) (Finite (price it))))
       (Finite 0) its"

definition calculateTotal :: "order_form \<Rightarrow> js_string" where
  "calculateTotal st = toFixed 2 (order_total (items (orderData st)))"



text \<open>
  \<open>handleSubmit\<close> up to its \<open>await\<close>: the two validations, then the flags and the call
  of \<open>send('square', 'orders/create', orderData)\<close>.
\<close>

definition invalid_item :: "item \<Rightarrow> bool" where
  "invalid_item it \<longleftrightarrow> item_name it = [] \<or> quantity it < 1 \<or> price it \<le> 0"

definition handleSubmit :: "order_form \<Rightarrow> order_form" where
  "handleSubmit st =
     (if customerName (orderData st) = [] then
        st\<lparr>order_error := Some ''Customer name is required''\<rparr>
      else if list_ex invalid_item (items (orderData st)) then
        st\<lparr>order_error := Some ''All items must have a name, quantity, and price''\<rparr>
      else
        st\<lparr>order_isSubmitting := True, order_error := None, orderStatus := Some Processing,
           order_calls := order_calls st @ [Send ''square'' ''orders/create'' (orderData st)],
           order_pending := order_pending st + 1\<rparr>)"

text \<open>The value of \<open>err.response?.data?.message\<close>, and of \<open>m || fallback\<close> for it.\<close>

definition server_message :: "transport_error \<Rightarrow> string option" where
  "server_message err =
     (case response err of
        None \<Rightarrow> None
      | Some r \<Rightarrow> (case data r of None \<Rightarrow> None | Some b \<Rightarrow> message b))"

definition or_fallback :: "string option \<Rightarrow> string \<Rightarrow> string" where
  "or_fallback m fallback =
     (case m of None \<Rightarrow> fallback | Some s \<Rightarrow> if s = [] then fallback else s)"

text \<open>\<open>handleSubmit\<close> from the point where \<open>send\<close> settles.\<close>

definition handleSubmit_settled :: "transport_error + json \<Rightarrow> order_form \<Rightarrow> order_form" where
  "handleSubmit_settled r st =
     (case r of
        Inr result \<Rightarrow>
          st\<lparr>orderResponse := Some result, orderStatus := Some Success,
             orderData := blank_order, order_isSubmitting := False,
             order_pending := order_pending st - 1\<rparr>
      | Inl err \<Rightarrow>
          st\<lparr>orderStatus := Some Error,
             order_error := Some (or_fallback (server_message err)
                                   ''Failed to process order. Please try again.''),
             order_isSubmitting := False,
             order_pending := order_pending st - 1\<rparr>)"

definition handleCloseSuccess :: "order_form \<Rightarrow> order_form" where
  "handleCloseSuccess st = st\<lparr>orderStatus := None, orderResponse := None\<rparr>"

text \<open>
  What can happen to a mounted form: the user's actions, and the settling of a pending
  \<open>send\<close>. An event that cannot happen in a state gives \<open>None\<close>.
\<close>

datatype form_event =
    InputChange input_name string
  | ItemChange nat item_edit
  | AddItem
  | RemoveItem int
  | Submit
  | SendSettled "transport_error + json"
  | CloseSuccess

fun form_step :: "form_event \<Rightarrow> order_form \<Rightarrow> order_form option" where
  "form_step (InputChange n v) st = Some (handleInputChange n v st)"
| "form_step (ItemChange i e) st = handleItemChange i e st"
| "form_step AddItem st = Some (addItem st)"
| "form_step (RemoveItem i) st = Some (removeItem i st)"
| "form_step Submit st = Some (handleSubmit st)"
| "form_step (SendSettled r) st =
     (if 0 < order_pending st then Some (handleSubmit_settled r st) else None)"
| "form_step CloseSuccess st = Some (handleCloseSuccess st)"

fun form_run :: "form_event list \<Rightarrow> order_form \<Rightarrow> order_form option" where
  "form_run [] st = Some st"
| "form_run (e # es) st =
     (case form_step e st of None \<Rightarrow> None | Some st' \<Rightarrow> form_run es st')"



definition order_with_items :: "item list \<Rightarrow> order_form" where
  "order_with_items its = order_form_initial\<lparr>orderData := blank_order\<lparr>items := its\<rparr>\<rparr>"



definition sextillion_order :: order_form where
  "sextillion_order =
     order_with_items
       [\<lparr>item_name = ''Franchise'', quantity = 1, price = 1000000000000000000000\<rparr>]"


section \<open>Integrations page, the Connection Manager (pages/IntegrationsPage)\<close>

record credential_field =
  field_name :: string
  field_label :: string
  field_type :: string
  field_required :: bool
  field_placeholder :: "string option"
  field_description :: "string option"

record adapter =
  adapter_id :: string
  adapter_name :: string
  requiredCredentials :: "credential_field list"

record connection =
  connection_id :: string
  connection_name :: string
  connection_system :: string
  connection_status :: string
  connectedAt :: string
  lastSync :: "string option"

text \<open>
  The calls the page makes on \<open>integrationService\<close>, and the trace of a session: each
  call when it is issued, and each call when its promise settles.
\<close>

datatype service_call =
    GetAdapters
  | GetConnections
  | Connect string "string obj"
  | Disconnect string

datatype trace_entry =
    Issued service_call
  | Resolved service_call
  | Failed service_call

datatype 'a promise = Unstarted | Pending | Fulfilled 'a | Rejected transport_error

text \<open>
  An \<open>async\<close> handler suspended at an \<open>await\<close>, with the values its closure holds:
  \<open>handleConnect\<close> waiting for \<open>connect(selectedAdapter, credentials)\<close> or for the
  \<open>getConnections()\<close> after it, \<open>handleDisconnect\<close> waiting for
  \<open>disconnect(connectionId)\<close> or for the \<open>getConnections()\<close> after it.
\<close>

datatype flow =
    AwaitConnect string "string obj"
  | AwaitConnectRefresh string
  | AwaitDisconnect string
  | AwaitDisconnectRefresh
  | Finished

text \<open>
  The state of the mounted page: the \<open>useState\<close> cells of the connection list and of
  the connect form, the two promises of the initial load, the suspended handlers and the
  trace. The webhook registration form has cells of its own, which no handler below reads
  or writes; it is left out.
\<close>

record page =
  adapters :: "adapter list"
  connections :: "connection list"
  loading :: bool
  error :: "string option"
  selectedAdapter :: string
  credentials :: "string obj"
  formError :: "string option"
  formSuccess :: "string option"
  isSubmitting :: bool
  adaptersFetch :: "adapter list promise"
  connectionsFetch :: "connection list promise"
  flows :: "flow list"
  trace :: "trace_entry list"

definition page_initial :: page where
  "page_initial =
     \<lparr>adapters = [], connections = [], loading = True, error = None,
      selectedAdapter = [], credentials = Map.empty, formError = None, formSuccess = None,
      isSubmitting = False, adaptersFetch = Unstarted, connectionsFetch = Unstarted,
      flows = [], trace = []\<rparr>"

text \<open>
  \<open>Promise.all([p, q])\<close>: rejected as soon as one of the two is rejected, fulfilled
  when both are fulfilled, pending otherwise.
\<close>

fun promise_all2 :: "'a promise \<Rightarrow> 'b promise \<Rightarrow> ('a \<times> 'b) promise" where
  "promise_all2 (Rejected e) q = Rejected e"
| "promise_all2 p (Rejected e) = Rejected e"
| "promise_all2 (Fulfilled a) (Fulfilled b) = Fulfilled (a, b)"
| "promise_all2 p q = Pending"

fun settled :: "'a promise \<Rightarrow> bool" where
  "settled (Fulfilled a) = True"
| "settled (Rejected e) = True"
| "settled p = False"

text \<open>
  \<open>fetchData\<close>, run by the effect on mount: up to its \<open>await\<close>, and from the point
  where the \<open>Promise.all\<close> settles.
\<close>

definition fetchData :: "page \<Rightarrow> page" where
  "fetchData st =
     st\<lparr>loading := True, adaptersFetch := Pending, connectionsFetch := Pending,
        trace := trace st @ [Issued GetAdapters, Issued GetConnections]\<rparr>"

definition load_failed_message :: string where
  "load_failed_message = ''Failed to load integration data. Please try again later.''"

fun fetchData_resume :: "(adapter list \<times> connection list) promise \<Rightarrow> page \<Rightarrow> page" where
  "fetchData_resume (Fulfilled (adaptersData, connectionsData)) st =
     st\<lparr>adapters := adaptersData, connections := connectionsData, error := None,
        loading := False\<rparr>"
| "fetchData_resume (Rejected err) st =
     st\<lparr>error := Some load_failed_message, loading := False\<rparr>"
| "fetchData_resume p st = st"

text \<open>
  One of the two initial promises has settled, taking the page from \<open>before\<close> to \<open>st\<close>:
  \<open>fetchData\<close> resumes if its \<open>Promise.all\<close> was still pending and no longer is.
\<close>

definition initial_settled :: "page \<Rightarrow> page \<Rightarrow> page" where
  "initial_settled before st =
     (if settled (promise_all2 (adaptersFetch before) (connectionsFetch before)) then st
      else fetchData_resume (promise_all2 (adaptersFetch st) (connectionsFetch st)) st)"

definition settle :: "transport_error + 'a \<Rightarrow> 'a promise" where
  "settle r = (case r of Inr v \<Rightarrow> Fulfilled v | Inl e \<Rightarrow> Rejected e)"

definition settled_entry :: "service_call \<Rightarrow> transport_error + 'a \<Rightarrow> trace_entry" where
  "settled_entry c r = (case r of Inr v \<Rightarrow> Resolved c | Inl e \<Rightarrow> Failed c)"

definition adapters_settled :: "transport_error + adapter list \<Rightarrow> page \<Rightarrow> page" where
  "adapters_settled r st =
     initial_settled st
       (st\<lparr>adaptersFetch := settle r, trace := trace st @ [settled_entry GetAdapters r]\<rparr>)"

definition connections_settled :: "transport_error + connection list \<Rightarrow> page \<Rightarrow> page" where
  "connections_settled r st =
     initial_settled st
       (st\<lparr>connectionsFetch := settle r, trace := trace st @ [settled_entry GetConnections r]\<rparr>)"

text \<open>
  \<open>handleAdapterChange\<close>: the credentials are rebuilt from the first adapter whose id is
  the selected value, by \<open>initialCredentials[field.name] = ''\<close> for each of its fields.
\<close>

definition initialCredentials :: "adapter \<Rightarrow> string obj" where
  "initialCredentials a =
     foldl (\<lambda>acc field. obj_assign (field_name field) [] acc) Map.empty
       (requiredCredentials a)"

definition handleAdapterChange :: "string \<Rightarrow> page \<Rightarrow> page" where
  "handleAdapterChange selectedAdapterId st =
     st\<lparr>selectedAdapter := selectedAdapterId,
        credentials :=
          (case find (\<lambda>a. adapter_id a = selectedAdapterId) (adapters st) of
             Some a \<Rightarrow> initialCredentials a
           | None \<Rightarrow> Map.empty),
        formError := None, formSuccess := None\<rparr>"

definition handleCredentialChange :: "string \<Rightarrow> string \<Rightarrow> page \<Rightarrow> page" where
  "handleCredentialChange n v st =
     st\<lparr>credentials := obj_define n v (obj_spread Map.empty (credentials st))\<rparr>"

text \<open>
  \<open>handleConnect\<close> up to the first \<open>await\<close>, from the point where \<open>connect\<close> settles,
  and from the point where the \<open>getConnections\<close> after it settles. The \<open>catch\<close> block
  serves both awaits, the \<open>finally\<close> block ends every path that entered the \<open>try\<close>.
\<close>

definition connect_failed_message :: string where
  "connect_failed_message = ''Failed to connect. Please check your credentials and try again.''"

definition handleConnect :: "page \<Rightarrow> page" where
  "handleConnect st =
     (if selectedAdapter st = [] then st\<lparr>formError := Some ''Please select an adapter''\<rparr>
      else
        st\<lparr>isSubmitting := True, formError := None,
           trace := trace st @ [Issued (Connect (selectedAdapter st) (credentials st))],
           flows := flows st @ [AwaitConnect (selectedAdapter st) (credentials st)]\<rparr>)"

definition handleConnect_catch :: "transport_error \<Rightarrow> page \<Rightarrow> page" where
  "handleConnect_catch err st =
     st\<lparr>formError := Some (or_fallback (server_message err) connect_failed_message),
        isSubmitting := False\<rparr>"

definition handleConnect_connected ::
  "nat \<Rightarrow> string \<Rightarrow> string obj \<Rightarrow> transport_error + json \<Rightarrow> page \<Rightarrow> page" where
  "handleConnect_connected n sel creds r st =
     (case r of
        Inr result \<Rightarrow>
          st\<lparr>trace := trace st @ [Resolved (Connect sel creds), Issued GetConnections],
             flows := (flows st)[n := AwaitConnectRefresh sel]\<rparr>
      | Inl err \<Rightarrow>
          handleConnect_catch err
            (st\<lparr>trace := trace st @ [Failed (Connect sel creds)],
               flows := (flows st)[n := Finished]\<rparr>))"

definition handleConnect_refreshed ::
  "nat \<Rightarrow> string \<Rightarrow> transport_error + connection list \<Rightarrow> page \<Rightarrow> page" where
  "handleConnect_refreshed n sel r st =
     (case r of
        Inr updatedConnections \<Rightarrow>
          st\<lparr>connections := updatedConnections,
             formSuccess := Some (''Successfully connected to '' @ sel),
             selectedAdapter := [], credentials := Map.empty, isSubmitting := False,
             trace := trace st @ [Resolved GetConnections],
             flows := (flows st)[n := Finished]\<rparr>
      | Inl err \<Rightarrow>
          handleConnect_catch err
            (st\<lparr>trace := trace st @ [Failed GetConnections],
               flows := (flows st)[n := Finished]\<rparr>))"

text \<open>
  \<open>handleDisconnect\<close>, with the answer of \<open>window.confirm\<close> as an input, in the same
  three parts.
\<close>

definition disconnect_failed_message :: string where
  "disconnect_failed_message = ''Failed to disconnect. Please try again.''"

definition handleDisconnect :: "string \<Rightarrow> bool \<Rightarrow> page \<Rightarrow> page" where
  "handleDisconnect connectionId confirmed st =
     (if \<not> confirmed then st
      else
        st\<lparr>loading := True,
           trace := trace st @ [Issued (Disconnect connectionId)],
           flows := flows st @ [AwaitDisconnect connectionId]\<rparr>)"

definition handleDisconnect_catch :: "transport_error \<Rightarrow> page \<Rightarrow> page" where
  "handleDisconnect_catch err st =
     st\<lparr>formError := Some (or_fallback (server_message err) disconnect_failed_message),
        loading := False\<rparr>"

definition handleDisconnect_disconnected ::
  "nat \<Rightarrow> string \<Rightarrow> transport_error + json \<Rightarrow> page \<Rightarrow> page" where
  "handleDisconnect_disconnected n connectionId r st =
     (case r of
        Inr result \<Rightarrow>
          st\<lparr>trace := trace st @ [Resolved (Disconnect connectionId), Issued GetConnections],
             flows := (flows st)[n := AwaitDisconnectRefresh]\<rparr>
      | Inl err \<Rightarrow>
          handleDisconnect_catch err
            (st\<lparr>trace := trace st @ [Failed (Disconnect connectionId)],
               flows := (flows st)[n := Finished]\<rparr>))"

definition handleDisconnect_refreshed ::
  "nat \<Rightarrow> transport_error + connection list \<Rightarrow> page \<Rightarrow> page" where
  "handleDisconnect_refreshed n r st =
     (case r of
        Inr updatedConnections \<Rightarrow>
          st\<lparr>connections := updatedConnections,
             formSuccess := Some ''Successfully disconnected'', loading := False,
             trace := trace st @ [Resolved GetConnections],
             flows := (flows st)[n := Finished]\<rparr>
      | Inl err \<Rightarrow>
          handleDisconnect_catch err
            (st\<lparr>trace := trace st @ [Failed GetConnections],
               flows := (flows st)[n := Finished]\<rparr>))"

text \<open>
  What can happen to the mounted page. A settling event names the suspended handler it
  resumes by its position in \<open>flows\<close>; it can happen only when that handler waits for
  that call, and an initial fetch can settle only while it is pending. The timer of the
  success notice fires only while a notice is shown.
\<close>

datatype page_event =
    AdaptersSettled "transport_error + adapter list"
  | ConnectionsSettled "transport_error + connection list"
  | AdapterChange string
  | CredentialChange string string
  | SubmitConnect
  | ConnectSettled nat "transport_error + json"
  | DisconnectClick string bool
  | DisconnectSettled nat "transport_error + json"
  | RefreshSettled nat "transport_error + connection list"
  | SuccessTimeout

definition flow_at :: "page \<Rightarrow> nat \<Rightarrow> flow option" where
  "flow_at st n = (if n < length (flows st) then Some (flows st ! n) else None)"

fun page_step :: "page_event \<Rightarrow> page \<Rightarrow> page option" where
  "page_step (AdaptersSettled r) st =
     (if adaptersFetch st = Pending then Some (adapters_settled r st) else None)"
| "page_step (ConnectionsSettled r) st =
     (if connectionsFetch st = Pending then Some (connections_settled r st) else None)"
| "page_step (AdapterChange v) st = Some (handleAdapterChange v st)"
| "page_step (CredentialChange n v) st = Some (handleCredentialChange n v st)"
| "page_step SubmitConnect st = Some (handleConnect st)"
| "page_step (ConnectSettled n r) st =
     (case flow_at st n of
        Some (AwaitConnect sel creds) \<Rightarrow> Some (handleConnect_connected n sel creds r st)
      | _ \<Rightarrow> None)"
| "page_step (DisconnectClick connectionId confirmed) st =
     Some (handleDisconnect connectionId confirmed st)"
| "page_step (DisconnectSettled n r) st =
     (case flow_at st n of
        Some (AwaitDisconnect connectionId) \<Rightarrow>
          Some (handleDisconnect_disconnected n connectionId r st)
      | _ \<Rightarrow> None)"
| "page_step (RefreshSettled n r) st =
     (case flow_at st n of
        Some (AwaitConnectRefresh sel) \<Rightarrow> Some (handleConnect_refreshed n sel r st)
      | Some AwaitDisconnectRefresh \<Rightarrow> Some (handleDisconnect_refreshed n r st)
      | _ \<Rightarrow> None)"
| "page_step SuccessTimeout st =
     (if formSuccess st = None then None else Some (st\<lparr>formSuccess := None\<rparr>))"

fun page_run :: "page_event list \<Rightarrow> page \<Rightarrow> page option" where
  "page_run [] st = Some st"
| "page_run (e # es) st =
     (case page_step e st of None \<Rightarrow> None | Some st' \<Rightarrow> page_run es st')"

text \<open>A session of the page: it is mounted, its effect runs \<open>fetchData\<close>, events follow.\<close>

definition page_session :: "page_event list \<Rightarrow> page option" where
  "page_session es = page_run es (fetchData page_initial)"

definition count_issued :: "service_call \<Rightarrow> trace_entry list \<Rightarrow> nat" where
  "count_issued c tr = length (filter (\<lambda>e. e = Issued c) tr)"

fun connect_resolved :: "page_event \<Rightarrow> bool" where
  "connect_resolved (ConnectSettled n (Inr result)) = True"
| "connect_resolved e = False"

fun disconnect_confirmed :: "page_event \<Rightarrow> bool" where
  "disconnect_confirmed (DisconnectClick connectionId confirmed) = confirmed"
| "disconnect_confirmed e = False"


text \<open>The adapters and the connection of the page's tests (tests/IntegrationsPage.test.jsx).\<close>

definition mockAdapters :: "adapter list" where
  "mockAdapters =
     [\<lparr>adapter_id = ''square'', adapter_name = ''Square POS'',
       requiredCredentials =
         [\<lparr>field_name = ''apiKey'', field_label = ''API Key'', field_type = ''password'',
           field_required = True, field_placeholder = None, field_description = None\<rparr>,
          \<lparr>field_name = ''locationId'', field_label = ''Location ID'', field_type = ''text'',
           field_required = True, field_placeholder = None, field_description = None\<rparr>]\<rparr>,
      \<lparr>adapter_id = ''sendgrid'', adapter_name = ''SendGrid'',
       requiredCredentials =
         [\<lparr>field_name = ''apiKey'', field_label = ''API Key'', field_type = ''password'',
           field_required = True, field_placeholder = None, field_description = None\<rparr>]\<rparr>]"

definition mockConnections :: "connection list" where
  "mockConnections =
     [\<lparr>connection_id = ''conn_123'', connection_name = ''Square POS'',
       connection_system = ''square'', connection_status = ''active'',
       connectedAt = ''2025-04-01T12:00:00Z'', lastSync = Some ''2025-04-28T10:30:00Z''\<rparr>]"

definition error_with_message :: "string \<Rightarrow> transport_error" where
  "error_with_message m = \<lparr>response = Some \<lparr>data = Some \<lparr>message = Some m\<rparr>\<rparr>\<rparr>"

definition network_error :: transport_error where
  "network_error = \<lparr>response = None\<rparr>"

text \<open>
  The page after both initial fetches have resolved with these, and then with the adapter
  \<open>square\<close> selected and the connect form submitted.
\<close>

definition page_loaded :: page where
  "page_loaded =
     connections_settled (Inr mockConnections)
       (adapters_settled (Inr mockAdapters) (fetchData page_initial))"

definition page_connecting :: page where
  "page_connecting = handleConnect (handleAdapterChange ''square'' page_loaded)"


text \<open>Classifications of promises, suspended handlers and events, for the statements below.\<close>

fun rejected :: "'a promise \<Rightarrow> bool" where
  "rejected (Rejected e) = True"
| "rejected p = False"

fun fulfilled :: "'a promise \<Rightarrow> bool" where
  "fulfilled (Fulfilled a) = True"
| "fulfilled p = False"

fun awaits_connect :: "flow \<Rightarrow> bool" where
  "awaits_connect (AwaitConnect sel creds) = True"
| "awaits_connect f = False"

fun awaits_disconnect :: "flow \<Rightarrow> bool" where
  "awaits_disconnect (AwaitDisconnect connectionId) = True"
| "awaits_disconnect f = False"

fun disconnect_flow :: "flow \<Rightarrow> bool" where
  "disconnect_flow (AwaitDisconnect connectionId) = True"
| "disconnect_flow AwaitDisconnectRefresh = True"
| "disconnect_flow f = False"

fun connect_settled :: "page_event \<Rightarrow> bool" where
  "connect_settled (ConnectSettled n r) = True"
| "connect_settled e = False"

fun disconnect_settled :: "page_event \<Rightarrow> bool" where
  "disconnect_settled (DisconnectSettled n r) = True"
| "disconnect_settled e = False"

fun disconnect_resolved :: "page_event \<Rightarrow> bool" where
  "disconnect_resolved (DisconnectSettled n (Inr result)) = True"
| "disconnect_resolved e = False"

text \<open>
  What the initial load maintains in a session without a confirmed disconnect: the
  \<open>loading\<close> flag is up exactly while the \<open>Promise.all\<close> of \<open>fetchData\<close> is pending, and
  \<open>error\<close> holds the one message exactly when one of the two fetches was rejected.
\<close>

definition load_inv :: "page \<Rightarrow> bool" where
  "load_inv st \<longleftrightarrow>
     (loading st \<longleftrightarrow> \<not> settled (promise_all2 (adaptersFetch st) (connectionsFetch st))) \<and>
     error st =
       (if rejected (adaptersFetch st) \<or> rejected (connectionsFetch st)
        then Some load_failed_message else None) \<and>
     \<not> list_ex disconnect_flow (flows st)"


text \<open>
  The session of the test of a successful connect: the initial load, the adapter
  selected, both credentials typed, the form submitted, the two calls resolving.
\<close>

definition connect_session :: "page_event list" where
  "connect_session =
     [AdaptersSettled (Inr mockAdapters), ConnectionsSettled (Inr mockConnections),
      AdapterChange ''square'',
      CredentialChange ''apiKey'' ''test-api-key'',
      CredentialChange ''locationId'' ''test-location'',
      SubmitConnect,
      ConnectSettled 0
        (Inr (JObj [''id'' \<mapsto> JStr ''conn_456'', ''status'' \<mapsto> JStr ''active''])),
      RefreshSettled 0 (Inr mockConnections)]"


text \<open>
  The same session followed by a confirmed disconnect of the listed connection, whose two
  calls resolve as well.
\<close>

definition disconnect_session :: "page_event list" where
  "disconnect_session =
     connect_session @
     [DisconnectClick ''conn_123'' True,
      DisconnectSettled 1 (Inr (JObj [''success'' \<mapsto> JBool True])),
      RefreshSettled 1 (Inr [])]"

text \<open>
  A page whose load has resolved with one adapter that requires two credential fields,
  the first of them named \<open>__proto__\<close>.
\<close>

definition vault_adapter :: adapter where
  "vault_adapter =
     \<lparr>adapter_id = ''vault'', adapter_name = ''Vault'',
      requiredCredentials =
        [\<lparr>field_name = ''__proto__'', field_label = ''Prototype'', field_type = ''text'',
          field_required = True, field_placeholder = None, field_description = None\<rparr>,
         \<lparr>field_name = ''token'', field_label = ''Token'', field_type = ''password'',
          field_required = True, field_placeholder = None, field_description = None\<rparr>]\<rparr>"

definition vault_page :: page where
  "vault_page =
     connections_settled (Inr [])
       (adapters_settled (Inr [vault_adapter]) (fetchData page_initial))"


section \<open>Webhook monitor (src/components/WebhookEventsComponent.jsx)\<close>

record webhook_event =
  event_id :: string
  source :: string
  timestamp :: string
  event_path :: string
  event_method :: string
  payload :: json

text \<open>
  The five \<open>useState\<close> cells of the component, then what the runtime holds for it:
  whether it is mounted; the interval set by \<open>setInterval\<close> (\<open>None\<close> when none is
  set, otherwise the milliseconds gone since it was set or last fired); the number of
  \<open>getWebhooks\<close> calls issued, and the number of them that have not settled.
\<close>

record monitor =
  webhookEvents :: "webhook_event list"
  monitor_loading :: bool
  monitor_error :: "string option"
  filterSource :: string
  sources :: "string list"
  mounted :: bool
  pollingInterval :: "nat option"
  fetches_issued :: nat
  fetches_pending :: nat

definition monitor_initial :: monitor where
  "monitor_initial =
     \<lparr>webhookEvents = [], monitor_loading = True, monitor_error = None,
      filterSource = ''all'', sources = [], mounted = False, pollingInterval = None,
      fetches_issued = 0, fetches_pending = 0\<rparr>"

text \<open>
  The calls of the state setters. React applies such a call to a mounted component; a
  call made for a component that has been unmounted is dropped by React, and the
  component has no state any more.
\<close>

datatype state_update =
    SetWebhookEvents "webhook_event list"
  | SetSources "string list"
  | SetError "string option"
  | SetLoading bool
  | SetFilterSource string

fun apply_update :: "state_update \<Rightarrow> monitor \<Rightarrow> monitor" where
  "apply_update (SetWebhookEvents v) st = st\<lparr>webhookEvents := v\<rparr>"
| "apply_update (SetSources v) st = st\<lparr>sources := v\<rparr>"
| "apply_update (SetError v) st = st\<lparr>monitor_error := v\<rparr>"
| "apply_update (SetLoading v) st = st\<lparr>monitor_loading := v\<rparr>"
| "apply_update (SetFilterSource v) st = st\<lparr>filterSource := v\<rparr>"

definition setState :: "state_update \<Rightarrow> monitor \<Rightarrow> monitor" where
  "setState u st = (if mounted st then apply_update u st else st)"

text \<open>
  \<open>[...new Set(webhooks.map(webhook => webhook.source))]\<close>: the sources in the order of
  their first occurrence.
\<close>

definition unique_sources :: "webhook_event list \<Rightarrow> string list" where
  "unique_sources webhooks =
     foldl (\<lambda>seen s. if s \<in> set seen then seen else seen @ [s]) [] (map source webhooks)"

text \<open>
  \<open>fetchWebhookEvents\<close>: up to its \<open>await\<close> it issues the call; when the call settles
  it makes the setter calls of the \<open>try\<close> or of the \<open>catch\<close> block and then of the
  \<open>finally\<close> block. It has no test of its own for the component being mounted.
\<close>

definition fetchWebhookEvents :: "monitor \<Rightarrow> monitor" where
  "fetchWebhookEvents st =
     st\<lparr>fetches_issued := fetches_issued st + 1, fetches_pending := fetches_pending st + 1\<rparr>"

definition fetchWebhookEvents_updates ::
  "transport_error + webhook_event list \<Rightarrow> state_update list" where
  "fetchWebhookEvents_updates r =
     (case r of
        Inr webhooks \<Rightarrow>
          [SetWebhookEvents webhooks, SetSources (unique_sources webhooks), SetError None,
           SetLoading False]
      | Inl err \<Rightarrow>
          [SetError (Some ''Failed to load webhook events. Please try again later.''),
           SetLoading False])"

definition fetchWebhookEvents_settled ::
  "transport_error + webhook_event list \<Rightarrow> monitor \<Rightarrow> monitor" where
  "fetchWebhookEvents_settled r st =
     foldl (\<lambda>s u. setState u s) (st\<lparr>fetches_pending := fetches_pending st - 1\<rparr>)
       (fetchWebhookEvents_updates r)"

text \<open>
  The effect: on mount it calls \<open>fetchWebhookEvents\<close> and sets the interval of 15000
  milliseconds; its cleanup, run on unmount, clears the interval.
\<close>

definition polling_period :: nat where
  "polling_period = 15000"

definition monitor_mount :: "monitor \<Rightarrow> monitor" where
  "monitor_mount st = (fetchWebhookEvents (st\<lparr>mounted := True\<rparr>))\<lparr>pollingInterval := Some 0\<rparr>"

definition monitor_unmount :: "monitor \<Rightarrow> monitor" where
  "monitor_unmount st = st\<lparr>mounted := False, pollingInterval := None\<rparr>"

text \<open>
  One millisecond passes: an interval that reaches its period fires, which calls
  \<open>fetchWebhookEvents\<close>, and starts again. \<open>elapse d\<close> lets \<open>d\<close> milliseconds pass.
\<close>

definition tick :: "monitor \<Rightarrow> monitor" where
  "tick st =
     (case pollingInterval st of
        None \<Rightarrow> st
      | Some gone \<Rightarrow>
          if polling_period \<le> gone + 1 then fetchWebhookEvents (st\<lparr>pollingInterval := Some 0\<rparr>)
          else st\<lparr>pollingInterval := Some (gone + 1)\<rparr>)"

primrec elapse :: "nat \<Rightarrow> monitor \<Rightarrow> monitor" where
  "elapse 0 st = st"
| "elapse (Suc d) st = elapse d (tick st)"

text \<open>
  What can happen to the monitor once mounted: time passes, a pending fetch settles
  (also after the unmount), the user picks a filter, the component is unmounted.
\<close>

datatype monitor_event =
    Elapse nat
  | WebhooksSettled "transport_error + webhook_event list"
  | FilterChange string
  | Unmount

fun monitor_step :: "monitor_event \<Rightarrow> monitor \<Rightarrow> monitor option" where
  "monitor_step (Elapse d) st = Some (elapse d st)"
| "monitor_step (WebhooksSettled r) st =
     (if 0 < fetches_pending st then Some (fetchWebhookEvents_settled r st) else None)"
| "monitor_step (FilterChange v) st =
     (if mounted st then Some (setState (SetFilterSource v) st) else None)"
| "monitor_step Unmount st = (if mounted st then Some (monitor_unmount st) else None)"

fun monitor_run :: "monitor_event list \<Rightarrow> monitor \<Rightarrow> monitor option" where
  "monitor_run [] st = Some st"
| "monitor_run (e # es) st =
     (case monitor_step e st of None \<Rightarrow> None | Some st' \<Rightarrow> monitor_run es st')"

fun elapsed :: "monitor_event \<Rightarrow> nat" where
  "elapsed (Elapse d) = d"
| "elapsed e = 0"

definition total_elapsed :: "monitor_event list \<Rightarrow> nat" where
  "total_elapsed es = sum_list (map elapsed es)"

text \<open>The three events of the component's tests (tests/WebhookEventsComponent.test.jsx).\<close>

definition mockWebhookEvents :: "webhook_event list" where
  "mockWebhookEvents =
     [\<lparr>event_id = ''webhook_1'', source = ''square'', timestamp = ''2025-04-28T10:15:30Z'',
       event_path = ''/api/webhooks/orders'', event_method = ''POST'',
       payload =
         JObj [''orderId'' \<mapsto> JStr ''order_123'',
               ''status'' \<mapsto> JStr ''created'']\<rparr>,
      \<lparr>event_id = ''webhook_2'', source = ''sendgrid'', timestamp = ''2025-04-28T09:45:20Z'',
       event_path = ''/api/webhooks/emails'', event_method = ''POST'',
       payload =
         JObj [''emailId'' \<mapsto> JStr ''email_456'',
               ''status'' \<mapsto> JStr ''sent'']\<rparr>,
      \<lparr>event_id = ''webhook_3'', source = ''square'', timestamp = ''2025-04-28T08:30:10Z'',
       event_path = ''/api/webhooks/payments'', event_method = ''POST'',
       payload =
         JObj [''paymentId'' \<mapsto> JStr ''payment_789'',
               ''status'' \<mapsto> JStr ''completed'']\<rparr>]"


section \<open>Properties of objects\<close>

lemma obj_spread_lookup:
  "obj_spread tgt src k = (case src k of Some v \<Rightarrow> Some v | None \<Rightarrow> tgt k)"
  by (simp add: obj_spread_def map_add_def)

lemma obj_spread_dom: "dom (obj_spread tgt src) = dom tgt \<union> dom src"
  by (auto simp: obj_spread_def)


section \<open>Integration service: the body of a webhook registration\<close>

text \<open>
  C10. For every path \<open>p\<close> and options object \<open>o\<close>, \<open>registerWebhook\<close> issues one POST to
  \<open>/api/integration/webhooks/register\<close> whose body is the object \<open>{path: p}\<close> merged
  with \<open>o\<close>, the entries of \<open>o\<close> applied after \<open>path\<close>: its keys are \<open>path\<close> and the
  keys of \<open>o\<close>, each once; at every key of \<open>o\<close> it holds the value of \<open>o\<close>, and at
  \<open>path\<close> it holds \<open>p\<close> only when \<open>o\<close> has no key \<open>path\<close>. So when \<open>o\<close> has a key
  \<open>path\<close> itself, its value replaces \<open>p\<close> in the transmitted body.
\<close>

theorem registerWebhook_body_merge:
  "\<exists>b. issued (registerWebhook net p opts) =
         \<lparr>verb = POST, url = ''/api/integration/webhooks/register'', body = Some (JObj b)\<rparr> \<and>
       (\<forall>k. b k =
          (case opts k of
             Some v \<Rightarrow> Some v
           | None \<Rightarrow> if k = ''path'' then Some (JStr p) else None)) \<and>
       dom b = insert ''path'' (dom opts) \<and>
       (\<forall>v. opts ''path'' = Some v \<longrightarrow> b ''path'' = Some v) \<and>
       (opts ''path'' = None \<longrightarrow> b ''path'' = Some (JStr p))"
proof -
  let ?b = "registerWebhook_body p opts"
  have req: "issued (registerWebhook net p opts) =
      \<lparr>verb = POST, url = ''/api/integration/webhooks/register'', body = Some (JObj ?b)\<rparr>"
    by (simp add: registerWebhook_def perform_def API_BASE_URL_def split: sum.split)
  have look: "?b k =
      (case opts k of
         Some v \<Rightarrow> Some v
       | None \<Rightarrow> if k = ''path'' then Some (JStr p) else None)" for k
    by (simp add: registerWebhook_body_def obj_spread_lookup split: option.split)
  have keys: "dom ?b = insert ''path'' (dom opts)"
    by (simp add: registerWebhook_body_def obj_spread_dom)
  have over: "opts ''path'' = Some v \<longrightarrow> ?b ''path'' = Some v" for v
    by (simp add: look)
  have keep: "opts ''path'' = None \<longrightarrow> ?b ''path'' = Some (JStr p)"
    by (simp add: look)
  show ?thesis
  proof (intro exI [of _ ?b] conjI allI)
    show "issued (registerWebhook net p opts) =
        \<lparr>verb = POST, url = ''/api/integration/webhooks/register'', body = Some (JObj ?b)\<rparr>"
      by (rule req)
    show "?b k =
        (case opts k of
           Some v \<Rightarrow> Some v
         | None \<Rightarrow> if k = ''path'' then Some (JStr p) else None)" for k
      by (rule look)
    show "dom ?b = insert ''path'' (dom opts)" by (rule keys)
    show "opts ''path'' = Some v \<longrightarrow> ?b ''path'' = Some v" for v by (rule over)
    show "opts ''path'' = None \<longrightarrow> ?b ''path'' = Some (JStr p)" by (rule keep)
  qed
qed

theorem registerWebhook_body_merge_witness:
  "\<exists>b. issued (registerWebhook (\<lambda>r. Inr JNull) ''/api/webhooks/orders''
            [''description'' \<mapsto> JStr ''orders'', ''path'' \<mapsto> JStr ''/other'']) =
         \<lparr>verb = POST, url = ''/api/integration/webhooks/register'', body = Some (JObj b)\<rparr> \<and>
       b ''path'' = Some (JStr ''/other'') \<and>
       b ''description'' = Some (JStr ''orders'') \<and>
       b ''events'' = None \<and>
       dom b = {''path'', ''description''}"
proof -
  let ?opts = "[''description'' \<mapsto> JStr ''orders'', ''path'' \<mapsto> JStr ''/other'']"
  let ?req = "\<lambda>b. \<lparr>verb = POST, url = ''/api/integration/webhooks/register'',
                     body = Some (JObj b)\<rparr>"
  from registerWebhook_body_merge [of "\<lambda>r. Inr JNull" "''/api/webhooks/orders''" ?opts]
  show ?thesis
  proof (elim exE conjE)
    fix b
    assume b: "issued (registerWebhook (\<lambda>r. Inr JNull) ''/api/webhooks/orders'' ?opts) = ?req b"
      and look: "\<forall>k. b k =
          (case ?opts k of
             Some v \<Rightarrow> Some v
           | None \<Rightarrow> if k = ''path'' then Some (JStr ''/api/webhooks/orders'') else None)"
      and keys: "dom b = insert ''path'' (dom ?opts)"
    have 1: "b ''path'' = Some (JStr ''/other'')"
      by (simp add: look)
    have 2: "b ''description'' = Some (JStr ''orders'')"
      by (simp add: look)
    have 3: "b ''events'' = None"
      by (simp add: look)
    have 4: "dom b = {''path'', ''description''}"
      by (simp add: keys insert_commute)
    show ?thesis
      by (intro exI [of _ b] conjI) (rule b 1 2 3 4)+
  qed
qed


section \<open>Order form: the item list and the validation of a submission\<close>

lemma splice1_in_range:
  "0 \<le> i \<Longrightarrow> i < int (length xs) \<Longrightarrow> splice1 i xs = take (nat i) xs @ drop (Suc (nat i)) xs"
  by (simp add: splice1_def Let_def min_def)

lemma splice1_nonempty: "1 < length xs \<Longrightarrow> splice1 i xs \<noteq> []"
  by (auto simp: splice1_def Let_def min_def max_def)

lemma removeItem_nonempty:
  "items (orderData st) \<noteq> [] \<Longrightarrow> items (orderData (removeItem i st)) \<noteq> []"
proof (cases "length (items (orderData st)) = 1")
  case True
  then show ?thesis by (auto simp: removeItem_def)
next
  case False
  assume "items (orderData st) \<noteq> []"
  with False have "1 < length (items (orderData st))"
    by (cases "items (orderData st)") auto
  then show ?thesis
    using False by (simp add: removeItem_def splice1_nonempty)
qed

lemma form_step_nonempty:
  "form_step e st = Some st' \<Longrightarrow> items (orderData st) \<noteq> [] \<Longrightarrow> items (orderData st') \<noteq> []"
proof (cases e)
  case (InputChange n v)
  then show "form_step e st = Some st' \<Longrightarrow> items (orderData st) \<noteq> [] \<Longrightarrow> items (orderData st') \<noteq> []"
    by (cases n) (auto simp: handleInputChange_def)
next
  case (ItemChange i ed)
  then show "form_step e st = Some st' \<Longrightarrow> items (orderData st) \<noteq> [] \<Longrightarrow> items (orderData st') \<noteq> []"
    by (auto simp: handleItemChange_def Let_def split: if_splits)
next
  case AddItem
  then show "form_step e st = Some st' \<Longrightarrow> items (orderData st) \<noteq> [] \<Longrightarrow> items (orderData st') \<noteq> []"
    by (auto simp: addItem_def)
next
  case (RemoveItem i)
  then show "form_step e st = Some st' \<Longrightarrow> items (orderData st) \<noteq> [] \<Longrightarrow> items (orderData st') \<noteq> []"
    using removeItem_nonempty by auto
next
  case Submit
  then show "form_step e st = Some st' \<Longrightarrow> items (orderData st) \<noteq> [] \<Longrightarrow> items (orderData st') \<noteq> []"
    by (auto simp: handleSubmit_def split: if_splits)
next
  case (SendSettled r)
  then show "form_step e st = Some st' \<Longrightarrow> items (orderData st) \<noteq> [] \<Longrightarrow> items (orderData st') \<noteq> []"
    by (auto simp: handleSubmit_settled_def blank_order_def split: if_splits sum.splits)
next
  case CloseSuccess
  then show "form_step e st = Some st' \<Longrightarrow> items (orderData st) \<noteq> [] \<Longrightarrow> items (orderData st') \<noteq> []"
    by (auto simp: handleCloseSuccess_def)
qed

lemma form_run_nonempty:
  "form_run es st = Some st' \<Longrightarrow> items (orderData st) \<noteq> [] \<Longrightarrow> items (orderData st') \<noteq> []"
proof (induction es arbitrary: st)
  case Nil
  then show ?case by simp
next
  case (Cons e es)
  then obtain s1 where s1: "form_step e st = Some s1" and rest: "form_run es s1 = Some st'"
    by (auto split: option.splits)
  from form_step_nonempty [OF s1 Cons.prems(2)] have "items (orderData s1) \<noteq> []" .
  with Cons.IH rest show ?case by blast
qed

text \<open>
  C6. The item list of the order form is never empty: every state the form reaches from
  its initial state has at least one item. When the list has exactly one item,
  \<open>removeItem\<close> at any index returns the state as it is (one item, every field
  unchanged). When it has more than one, \<open>removeItem\<close> at a position of the list deletes
  exactly the item at that position and changes nothing else. No call of \<open>removeItem\<close>
  empties a non-empty list.
\<close>

theorem removeItem_keeps_last_item:
  "(\<forall>es s. form_run es order_form_initial = Some s \<longrightarrow> 1 \<le> length (items (orderData s))) \<and>
   (length (items (orderData st)) = 1 \<longrightarrow> removeItem i st = st) \<and>
   (1 < length (items (orderData st)) \<and> 0 \<le> i \<and> i < int (length (items (orderData st))) \<longrightarrow>
      removeItem i st =
        st\<lparr>orderData := (orderData st)\<lparr>items :=
             take (nat i) (items (orderData st)) @ drop (Suc (nat i)) (items (orderData st))\<rparr>\<rparr> \<and>
      length (items (orderData (removeItem i st))) = length (items (orderData st)) - 1) \<and>
   (1 \<le> length (items (orderData st)) \<longrightarrow> 1 \<le> length (items (orderData (removeItem i st))))"
proof -
  have init: "items (orderData order_form_initial) \<noteq> []"
    by (simp add: order_form_initial_def blank_order_def)
  have reach: "\<forall>es s. form_run es order_form_initial = Some s \<longrightarrow> 1 \<le> length (items (orderData s))"
  proof (intro allI impI)
    fix es s
    assume "form_run es order_form_initial = Some s"
    from form_run_nonempty [OF this init] show "1 \<le> length (items (orderData s))"
      by (cases "items (orderData s)") auto
  qed
  have single: "length (items (orderData st)) = 1 \<longrightarrow> removeItem i st = st"
    by (simp add: removeItem_def)
  have many: "1 < length (items (orderData st)) \<and> 0 \<le> i \<and> i < int (length (items (orderData st))) \<longrightarrow>
      removeItem i st =
        st\<lparr>orderData := (orderData st)\<lparr>items :=
             take (nat i) (items (orderData st)) @ drop (Suc (nat i)) (items (orderData st))\<rparr>\<rparr> \<and>
      length (items (orderData (removeItem i st))) = length (items (orderData st)) - 1"
    by (auto simp: removeItem_def splice1_in_range)
  have keep: "1 \<le> length (items (orderData st)) \<longrightarrow> 1 \<le> length (items (orderData (removeItem i st)))"
    using removeItem_nonempty [of st i]
    by (cases "items (orderData st)"; cases "items (orderData (removeItem i st))") auto
  from reach single many keep show ?thesis by blast
qed

theorem removeItem_keeps_last_item_witness:
  "form_run [AddItem, RemoveItem 0, RemoveItem 0] order_form_initial = Some order_form_initial \<and>
   length (items (orderData order_form_initial)) = 1 \<and>
   removeItem 5 order_form_initial = order_form_initial \<and>
   1 < length (items (orderData (addItem order_form_initial))) \<and>
   removeItem 1 (addItem order_form_initial) = order_form_initial"
proof -
  let ?two = "addItem order_form_initial"
  have one: "length (items (orderData order_form_initial)) = 1"
    by (simp add: order_form_initial_def blank_order_def)
  have two: "1 < length (items (orderData ?two)) \<and> (0::int) \<le> 1 \<and>
      (1::int) < int (length (items (orderData ?two)))"
    by (simp add: addItem_def order_form_initial_def blank_order_def)
  have two0: "1 < length (items (orderData ?two)) \<and> (0::int) \<le> 0 \<and>
      (0::int) < int (length (items (orderData ?two)))"
    by (simp add: addItem_def order_form_initial_def blank_order_def)
  have a: "removeItem 5 order_form_initial = order_form_initial"
    using removeItem_keeps_last_item [of order_form_initial 5] one by blast
  have b: "removeItem 0 order_form_initial = order_form_initial"
    using removeItem_keeps_last_item [of order_form_initial 0] one by blast
  have "removeItem 1 ?two =
      ?two\<lparr>orderData := (orderData ?two)\<lparr>items :=
        take (nat 1) (items (orderData ?two)) @ drop (Suc (nat 1)) (items (orderData ?two))\<rparr>\<rparr>"
    using removeItem_keeps_last_item [of ?two 1] two by blast
  then have c: "removeItem 1 ?two = order_form_initial"
    by (simp add: addItem_def order_form_initial_def blank_order_def)
  have "removeItem 0 ?two =
      ?two\<lparr>orderData := (orderData ?two)\<lparr>items :=
        take (nat 0) (items (orderData ?two)) @ drop (Suc (nat 0)) (items (orderData ?two))\<rparr>\<rparr>"
    using removeItem_keeps_last_item [of ?two 0] two0 by blast
  then have d: "removeItem 0 ?two = order_form_initial"
    by (simp add: addItem_def order_form_initial_def blank_order_def)
  have "form_run [AddItem, RemoveItem 0, RemoveItem 0] order_form_initial = Some order_form_initial"
    by (simp add: d b)
  with one a two c show ?thesis by blast
qed

text \<open>
  C8. When \<open>customerName\<close> is the empty string, submitting the form only sets the
  validation message: \<open>send\<close> is not called (no call is added and none is pending), and
  the order data and every other cell of the form are unchanged.
\<close>

theorem handleSubmit_empty_name:
  "customerName (orderData st) = [] \<Longrightarrow>
     form_step Submit st = Some (st\<lparr>order_error := Some ''Customer name is required''\<rparr>) \<and>
     order_calls (handleSubmit st) = order_calls st \<and>
     order_pending (handleSubmit st) = order_pending st \<and>
     orderData (handleSubmit st) = orderData st"
  by (simp add: handleSubmit_def)


theorem handleSubmit_empty_name_witness:
  "customerName (orderData (addItem order_form_initial)) = [] \<and>
   form_step Submit (addItem order_form_initial) =
     Some ((addItem order_form_initial)\<lparr>order_error := Some ''Customer name is required''\<rparr>) \<and>
   order_calls (handleSubmit (addItem order_form_initial)) = []"
proof -
  have h: "customerName (orderData (addItem order_form_initial)) = []"
    by (simp add: addItem_def order_form_initial_def blank_order_def)
  have "order_calls (addItem order_form_initial) = []"
    by (simp add: addItem_def order_form_initial_def)
  with h handleSubmit_empty_name [OF h] show ?thesis by simp
qed


section \<open>Numbers: rounding, and the two decimals of toFixed\<close>

lemma pow2_pos: "0 < pow2 e"
  by (simp add: pow2_def)

lemma pow2_powi: "pow2 e = 2 powi e"
  by (simp add: pow2_def power_int_def power_one_over [symmetric] inverse_eq_divide)

lemma bitlen_powi:
  assumes "0 < (a::int)"
  shows "(2::rat) powi (bitlen a - 1) \<le> of_int a" and "of_int a < (2::rat) powi bitlen a"
proof -
  from bitlen_bounds [OF assms]
  have lo: "2 ^ nat (bitlen a - 1) \<le> a" and hi: "a < 2 ^ nat (bitlen a)"
    by simp_all
  have pos: "1 \<le> bitlen a"
    using assms bitlen_eq_zero_iff [of a] bitlen_nonneg [of a] by linarith
  have "(of_int (2 ^ nat (bitlen a - 1)) :: rat) \<le> of_int a"
    using lo by (simp only: of_int_le_iff)
  then show "(2::rat) powi (bitlen a - 1) \<le> of_int a"
    using pos by (simp add: power_int_def)
  have "(of_int a :: rat) < of_int (2 ^ nat (bitlen a))"
    using hi by (simp only: of_int_less_iff)
  then show "of_int a < (2::rat) powi bitlen a"
    using pos by (simp add: power_int_def)
qed

text \<open>\<open>binade\<close> is the binary exponent: \<open>2^binade x \<le> |x| < 2^(binade x + 1)\<close>.\<close>

lemma binade_bounds:
  assumes "x \<noteq> 0"
  shows "pow2 (binade x) \<le> \<bar>x\<bar>" and "\<bar>x\<bar> < pow2 (binade x + 1)"
proof -
  obtain a b where q: "quotient_of \<bar>x\<bar> = (a, b)" by (cases "quotient_of \<bar>x\<bar>")
  then have b: "0 < b" and x: "\<bar>x\<bar> = of_int a / of_int b"
    using quotient_of_denom_pos [of "\<bar>x\<bar>" a b] quotient_of_div [of "\<bar>x\<bar>" a b] by simp_all
  have a: "0 < a"
  proof -
    have "0 < \<bar>x\<bar>" using assms by simp
    then have "0 < (of_int a :: rat) / of_int b" by (simp only: x)
    with b show ?thesis by (simp add: zero_less_divide_iff)
  qed
  let ?d = "bitlen a - bitlen b"
  note ab = bitlen_powi [OF a] bitlen_powi [OF b]
  have bpos: "0 < (of_int b :: rat)" using b by simp
  have up: "\<bar>x\<bar> < 2 powi (?d + 1)"
  proof -
    have "of_int a / of_int b < (2::rat) powi bitlen a / 2 powi (bitlen b - 1)"
      using ab a b by (intro frac_less) simp_all
    also have "\<dots> = 2 powi (?d + 1)"
      by (simp add: power_int_diff [symmetric] algebra_simps)
    finally show ?thesis by (simp only: x)
  qed
  have low: "2 powi (?d - 1) \<le> \<bar>x\<bar>"
  proof -
    have "(2::rat) powi (bitlen a - 1) / 2 powi bitlen b \<le> of_int a / of_int b"
      using ab a b by (intro frac_le) simp_all
    moreover have "(2::rat) powi (bitlen a - 1) / 2 powi bitlen b = 2 powi (?d - 1)"
      by (simp add: power_int_diff [symmetric] algebra_simps)
    ultimately show ?thesis by (simp only: x)
  qed
  have bin: "binade x = (if 2 powi ?d \<le> \<bar>x\<bar> then ?d else ?d - 1)"
    by (simp add: binade_def q pow2_powi Let_def)
  show "pow2 (binade x) \<le> \<bar>x\<bar>"
    using low by (simp add: bin pow2_powi)
  show "\<bar>x\<bar> < pow2 (binade x + 1)"
    using up by (auto simp: bin pow2_powi)
qed


lemma round_half_even_near: "\<bar>of_int (round_half_even q) - q\<bar> \<le> 1 / 2"
proof -
  have "of_int \<lfloor>q\<rfloor> \<le> q" and "q < of_int \<lfloor>q\<rfloor> + 1"
    by linarith+
  then show ?thesis
    by (auto simp: round_half_even_def Let_def)
qed


lemma round_double_near:
  assumes "round_double x = Finite y"
  shows "\<bar>y - x\<bar> \<le> pow2 (ulp_exponent x) / 2"
proof (cases "x = 0")
  case True
  with assms show ?thesis by (simp add: round_double_def pow2_pos less_imp_le)
next
  case False
  let ?u = "pow2 (ulp_exponent x)"
  have u: "0 < ?u" by (rule pow2_pos)
  from assms False have y: "y = of_int (round_half_even (x / ?u)) * ?u"
    by (simp add: round_double_def Let_def split: if_splits)
  have "\<bar>of_int (round_half_even (x / ?u)) - x / ?u\<bar> * ?u \<le> 1 / 2 * ?u"
    using round_half_even_near [of "x / ?u"] u by (intro mult_right_mono) simp_all
  moreover have "\<bar>of_int (round_half_even (x / ?u)) - x / ?u\<bar> * ?u = \<bar>y - x\<bar>"
  proof -
    have "\<bar>of_int (round_half_even (x / ?u)) - x / ?u\<bar> * ?u =
          \<bar>(of_int (round_half_even (x / ?u)) - x / ?u) * ?u\<bar>"
      using u by (simp add: abs_mult)
    also have "(of_int (round_half_even (x / ?u)) - x / ?u) * ?u = y - x"
      using u by (simp add: y left_diff_distrib)
    finally show ?thesis .
  qed
  ultimately show ?thesis by simp
qed










section \<open>Order form: the displayed total\<close>


text \<open>A price of \<open>10^21\<close> is displayed in exponent notation, not with two decimals.\<close>

lemma sextillion_total:
  "calculateTotal sextillion_order = ExponentNotation [] 1000000000000000000000"
  by code_simp





section \<open>Integrations page: selecting an adapter\<close>

lemma assign_fold_lookup:
  "foldl (\<lambda>acc field. obj_assign (field_name field) v acc) acc0 fs k =
     (if k \<in> set (map field_name fs) \<and> k \<noteq> ''__proto__'' then Some v else acc0 k)"
  by (induction fs arbitrary: acc0) (auto simp: obj_assign_def obj_define_def)

lemma initialCredentials_lookup:
  "initialCredentials a k =
     (if k \<in> set (map field_name (requiredCredentials a)) \<and> k \<noteq> ''__proto__''
      then Some [] else None)"
  by (simp add: initialCredentials_def assign_fold_lookup)

lemma initialCredentials_dom:
  "dom (initialCredentials a) = set (map field_name (requiredCredentials a)) - {''__proto__''}"
  by (auto simp: dom_def initialCredentials_lookup)

lemma find_by_distinct_id:
  "a \<in> set xs \<Longrightarrow> distinct (map adapter_id xs) \<Longrightarrow>
   find (\<lambda>x. adapter_id x = adapter_id a) xs = Some a"
  by (induction xs) auto

lemma page_loaded_adapters: "adapters page_loaded = mockAdapters"
  by (simp add: page_loaded_def connections_settled_def adapters_settled_def fetchData_def
      initial_settled_def settle_def page_initial_def)

lemma vault_page_adapters: "adapters vault_page = [vault_adapter]"
  by (simp add: vault_page_def connections_settled_def adapters_settled_def fetchData_def
      initial_settled_def settle_def page_initial_def)

lemma page_connecting_flows:
  "flows page_connecting = [AwaitConnect ''square'' [''apiKey'' \<mapsto> [], ''locationId'' \<mapsto> []]]"
  by (simp add: page_connecting_def handleConnect_def handleAdapterChange_def
      page_loaded_def connections_settled_def adapters_settled_def fetchData_def
      initial_settled_def settle_def page_initial_def mockAdapters_def
      initialCredentials_def obj_assign_def obj_define_def)

text \<open>
  C5 (amended). Let the adapter ids of the fetched list be distinct. Selecting an adapter
  of the list makes it the selected adapter and rebuilds the credentials with exactly
  the names of its required fields other than \<open>__proto__\<close> as keys, each mapped to the
  empty string; these are \<open>N\<close> keys when the \<open>N\<close> field names are distinct and none of
  them is \<open>__proto__\<close>. Selecting a value that is the id of no adapter, such as the
  empty value of the placeholder option when no adapter has the empty id, leaves the
  credentials empty.
\<close>

theorem handleAdapterChange_credentials:
  "(a \<in> set (adapters st) \<and> distinct (map adapter_id (adapters st)) \<longrightarrow>
      selectedAdapter (handleAdapterChange (adapter_id a) st) = adapter_id a \<and>
      (\<forall>k. credentials (handleAdapterChange (adapter_id a) st) k =
            (if k \<in> set (map field_name (requiredCredentials a)) \<and> k \<noteq> ''__proto__''
             then Some [] else None)) \<and>
      dom (credentials (handleAdapterChange (adapter_id a) st)) =
        set (map field_name (requiredCredentials a)) - {''__proto__''} \<and>
      (distinct (map field_name (requiredCredentials a)) \<and>
       ''__proto__'' \<notin> set (map field_name (requiredCredentials a)) \<longrightarrow>
         card (dom (credentials (handleAdapterChange (adapter_id a) st))) =
           length (requiredCredentials a))) \<and>
   ((\<forall>a \<in> set (adapters st). adapter_id a \<noteq> sid) \<longrightarrow>
      credentials (handleAdapterChange sid st) = Map.empty)"
proof (intro conjI impI)
  assume h: "a \<in> set (adapters st) \<and> distinct (map adapter_id (adapters st))"
  then have found: "find (\<lambda>x. adapter_id x = adapter_id a) (adapters st) = Some a"
    using find_by_distinct_id by blast
  then have creds: "credentials (handleAdapterChange (adapter_id a) st) = initialCredentials a"
    by (simp add: handleAdapterChange_def)
  show "selectedAdapter (handleAdapterChange (adapter_id a) st) = adapter_id a"
    by (simp add: handleAdapterChange_def)
  show "\<forall>k. credentials (handleAdapterChange (adapter_id a) st) k =
            (if k \<in> set (map field_name (requiredCredentials a)) \<and> k \<noteq> ''__proto__''
             then Some [] else None)"
    by (simp only: creds initialCredentials_lookup) simp
  show "dom (credentials (handleAdapterChange (adapter_id a) st)) =
        set (map field_name (requiredCredentials a)) - {''__proto__''}"
    by (simp only: creds initialCredentials_dom)
  {
    assume d: "distinct (map field_name (requiredCredentials a)) \<and>
       ''__proto__'' \<notin> set (map field_name (requiredCredentials a))"
    then have "dom (initialCredentials a) = set (map field_name (requiredCredentials a))"
      by (simp only: initialCredentials_dom) simp
    then have "card (dom (initialCredentials a)) = length (map field_name (requiredCredentials a))"
      using d distinct_card [of "map field_name (requiredCredentials a)"] by simp
    then show "card (dom (credentials (handleAdapterChange (adapter_id a) st))) =
           length (requiredCredentials a)"
      by (simp add: creds)
  }
next
  assume "\<forall>a \<in> set (adapters st). adapter_id a \<noteq> sid"
  then have "find (\<lambda>a. adapter_id a = sid) (adapters st) = None"
    by (simp add: find_None_iff)
  then show "credentials (handleAdapterChange sid st) = Map.empty"
    by (simp add: handleAdapterChange_def)
qed

theorem handleAdapterChange_credentials_witness:
  "credentials (handleAdapterChange ''square'' page_loaded) ''apiKey'' = Some [] \<and>
   credentials (handleAdapterChange ''square'' page_loaded) ''locationId'' = Some [] \<and>
   dom (credentials (handleAdapterChange ''square'' page_loaded)) = {''apiKey'', ''locationId''} \<and>
   card (dom (credentials (handleAdapterChange ''square'' page_loaded))) = 2 \<and>
   credentials (handleAdapterChange [] page_loaded) = Map.empty"
proof -
  let ?a = "hd mockAdapters"
  let ?c = "credentials (handleAdapterChange (adapter_id ?a) page_loaded)"
  have sq: "adapter_id ?a = ''square''"
    by (simp add: mockAdapters_def)
  have a: "?a \<in> set (adapters page_loaded) \<and> distinct (map adapter_id (adapters page_loaded))"
    by (simp add: page_loaded_adapters mockAdapters_def)
  have d: "distinct (map field_name (requiredCredentials ?a)) \<and>
      ''__proto__'' \<notin> set (map field_name (requiredCredentials ?a))"
    by (simp add: mockAdapters_def)
  have n: "\<forall>a \<in> set (adapters page_loaded). adapter_id a \<noteq> []"
    by (simp add: page_loaded_adapters mockAdapters_def)
  note inst = handleAdapterChange_credentials [of ?a page_loaded "[]"]
  note part = inst [THEN conjunct1, THEN mp, OF a]
  have look: "\<forall>k. ?c k =
      (if k \<in> set (map field_name (requiredCredentials ?a)) \<and> k \<noteq> ''__proto__''
       then Some [] else None)"
    by (rule part [THEN conjunct2, THEN conjunct1])
  have keys: "dom ?c = set (map field_name (requiredCredentials ?a)) - {''__proto__''}"
    by (rule part [THEN conjunct2, THEN conjunct2, THEN conjunct1])
  have count: "card (dom ?c) = length (requiredCredentials ?a)"
    by (rule part [THEN conjunct2, THEN conjunct2, THEN conjunct2, THEN mp, OF d])
  have none: "credentials (handleAdapterChange [] page_loaded) = Map.empty"
    by (rule inst [THEN conjunct2, THEN mp, OF n])
  have 1: "?c ''apiKey'' = Some []"
    by (simp add: look) (simp add: mockAdapters_def)
  have 2: "?c ''locationId'' = Some []"
    by (simp add: look) (simp add: mockAdapters_def)
  have 3: "dom ?c = {''apiKey'', ''locationId''}"
    by (simp only: keys) (simp add: mockAdapters_def)
  have 4: "card (dom ?c) = 2"
    by (simp only: count) (simp add: mockAdapters_def)
  from 1 2 3 4 none show ?thesis
    by (simp only: sq)
qed

text \<open>
  C5 as stated fails for an adapter with the two required fields \<open>__proto__\<close> and
  \<open>token\<close>: selecting it gives credentials with the single key \<open>token\<close>, because the
  assignment to \<open>__proto__\<close> creates no property.
\<close>

theorem proto_field_counterexample:
  "vault_adapter \<in> set (adapters vault_page) \<and>
   map field_name (requiredCredentials vault_adapter) = [''__proto__'', ''token''] \<and>
   credentials (handleAdapterChange ''vault'' vault_page) ''__proto__'' = None \<and>
   dom (credentials (handleAdapterChange ''vault'' vault_page)) = {''token''}"
proof -
  have c: "credentials (handleAdapterChange ''vault'' vault_page) = initialCredentials vault_adapter"
    by (simp add: handleAdapterChange_def vault_page_adapters) (simp add: vault_adapter_def)
  have f: "map field_name (requiredCredentials vault_adapter) = [''__proto__'', ''token'']"
    by (simp add: vault_adapter_def)
  have 1: "initialCredentials vault_adapter ''__proto__'' = None"
    by (simp only: initialCredentials_lookup) simp
  have 2: "dom (initialCredentials vault_adapter) = {''token''}"
    by (simp only: initialCredentials_dom f) simp
  show ?thesis
    by (simp only: c 1 2 f vault_page_adapters) simp
qed


section \<open>Integrations page: the message of a failed connect\<close>

text \<open>
  C9 (amended). When the \<open>connect\<close> call of a submission fails with an error whose
  response body has a non-empty \<open>message\<close>, the form error is exactly that message.
  When the error has no response, no body or no message, or when the message is the
  empty string, the form error is the generic message. The selected adapter and the
  credentials entered are kept.
\<close>

theorem connect_failure_message:
  "flow_at st n = Some (AwaitConnect sel creds) \<Longrightarrow>
   \<exists>st'. page_step (ConnectSettled n (Inl err)) st = Some st' \<and>
     (\<forall>m. server_message err = Some m \<and> m \<noteq> [] \<longrightarrow> formError st' = Some m) \<and>
     (server_message err = None \<or> server_message err = Some [] \<longrightarrow>
        formError st' = Some ''Failed to connect. Please check your credentials and try again.'') \<and>
     selectedAdapter st' = selectedAdapter st \<and> credentials st' = credentials st"
  by (auto simp: handleConnect_connected_def handleConnect_catch_def or_fallback_def
        connect_failed_message_def)

theorem connect_failure_message_witness:
  "flow_at page_connecting 0 =
     Some (AwaitConnect ''square'' [''apiKey'' \<mapsto> [], ''locationId'' \<mapsto> []]) \<and>
   (\<exists>st'. page_step (ConnectSettled 0 (Inl (error_with_message ''Invalid API key'')))
            page_connecting = Some st' \<and>
      formError st' = Some ''Invalid API key'')"
proof -
  have f: "flow_at page_connecting 0 =
     Some (AwaitConnect ''square'' [''apiKey'' \<mapsto> [], ''locationId'' \<mapsto> []])"
    by (simp add: flow_at_def page_connecting_flows)
  have m: "server_message (error_with_message ''Invalid API key'') = Some ''Invalid API key'' \<and>
      ''Invalid API key'' \<noteq> []"
    by (simp add: server_message_def error_with_message_def)
  from connect_failure_message [OF f, of "error_with_message ''Invalid API key''"]
  obtain st' where
    s: "page_step (ConnectSettled 0 (Inl (error_with_message ''Invalid API key'')))
          page_connecting = Some st'"
    and a: "\<forall>m. server_message (error_with_message ''Invalid API key'') = Some m \<and> m \<noteq> [] \<longrightarrow>
          formError st' = Some m"
    by (elim exE conjE)
  have "formError st' = Some ''Invalid API key''"
    by (rule a [rule_format, OF m])
  with s f show ?thesis
    by (intro conjI exI [of _ st']) simp_all
qed

text \<open>
  C9 as stated fails for a body whose \<open>message\<close> field is the empty string: the field
  is present, and the page shows the generic message instead of it.
\<close>

theorem connect_empty_message_counterexample:
  "server_message (error_with_message []) = Some [] \<and>
   map_option formError
     (page_step (ConnectSettled 0 (Inl (error_with_message []))) page_connecting) =
   Some (Some ''Failed to connect. Please check your credentials and try again.'')"
  by (simp add: flow_at_def page_connecting_flows handleConnect_connected_def
      handleConnect_catch_def or_fallback_def server_message_def error_with_message_def
      connect_failed_message_def)


section \<open>Integrations page: the initial load\<close>

lemma list_ex_update:
  "\<not> list_ex P xs \<Longrightarrow> \<not> P y \<Longrightarrow> \<not> list_ex P (xs[n := y])"
  using set_update_subset_insert [of xs n y] by (auto simp: list_ex_iff)

lemma flow_atD: "flow_at st n = Some f \<Longrightarrow> n < length (flows st) \<and> flows st ! n = f"
  by (auto simp: flow_at_def split: if_splits)

lemma load_inv_initial_settled:
  assumes "load_inv before"
    and "flows st = flows before" and "loading st = loading before"
    and "error st = error before"
    and "(adaptersFetch before = Pending \<and> adaptersFetch st = settle ra \<and>
          connectionsFetch st = connectionsFetch before) \<or>
         (connectionsFetch before = Pending \<and> connectionsFetch st = settle rc \<and>
          adaptersFetch st = adaptersFetch before)"
  shows "load_inv (initial_settled before st)"
proof -
  from assms(5) show ?thesis
  proof
    assume a: "adaptersFetch before = Pending \<and> adaptersFetch st = settle ra \<and>
          connectionsFetch st = connectionsFetch before"
    show ?thesis
      using assms(1-4) a
      by (cases ra; cases "connectionsFetch before")
         (auto simp: load_inv_def initial_settled_def settle_def)
  next
    assume c: "connectionsFetch before = Pending \<and> connectionsFetch st = settle rc \<and>
          adaptersFetch st = adaptersFetch before"
    show ?thesis
      using assms(1-4) c
      by (cases rc; cases "adaptersFetch before")
         (auto simp: load_inv_def initial_settled_def settle_def)
  qed
qed

lemma load_inv_step:
  assumes "page_step e st = Some st'" and "\<not> disconnect_confirmed e" and "load_inv st"
  shows "load_inv st'"
proof (cases e)
  case (AdaptersSettled r)
  with assms(1) have p: "adaptersFetch st = Pending" and s: "st' = adapters_settled r st"
    by (auto split: if_splits)
  show ?thesis
    unfolding s adapters_settled_def
    by (rule load_inv_initial_settled [OF assms(3), where ra = r]) (simp_all add: p)
next
  case (ConnectionsSettled r)
  with assms(1) have p: "connectionsFetch st = Pending" and s: "st' = connections_settled r st"
    by (auto split: if_splits)
  show ?thesis
    unfolding s connections_settled_def
    by (rule load_inv_initial_settled [OF assms(3), where rc = r]) (simp_all add: p)
next
  case (AdapterChange v)
  with assms show ?thesis by (auto simp: load_inv_def handleAdapterChange_def)
next
  case (CredentialChange n v)
  with assms show ?thesis by (auto simp: load_inv_def handleCredentialChange_def)
next
  case SubmitConnect
  with assms show ?thesis
    by (cases "selectedAdapter st = []") (auto simp: load_inv_def handleConnect_def)
next
  case (ConnectSettled n r)
  with assms show ?thesis
    by (cases r)
       (auto simp: load_inv_def handleConnect_connected_def handleConnect_catch_def
          list_ex_update split: option.splits flow.splits)
next
  case (DisconnectClick c b)
  with assms show ?thesis by (auto simp: load_inv_def handleDisconnect_def)
next
  case (DisconnectSettled n r)
  with assms(1) obtain c where "flow_at st n = Some (AwaitDisconnect c)"
    by (auto split: option.splits flow.splits)
  then have "disconnect_flow (flows st ! n)" and "n < length (flows st)"
    using flow_atD by fastforce+
  then have "list_ex disconnect_flow (flows st)"
    by (auto simp: list_ex_iff)
  with assms(3) show ?thesis by (simp add: load_inv_def)
next
  case (RefreshSettled n r)
  show ?thesis
  proof (cases "flow_at st n = Some AwaitDisconnectRefresh")
    case True
    then have "disconnect_flow (flows st ! n)" and "n < length (flows st)"
      using flow_atD by fastforce+
    then have "list_ex disconnect_flow (flows st)"
      by (auto simp: list_ex_iff)
    with assms(3) show ?thesis by (simp add: load_inv_def)
  next
    case False
    with RefreshSettled assms show ?thesis
      by (cases r)
         (auto simp: load_inv_def handleConnect_refreshed_def handleConnect_catch_def
            list_ex_update split: option.splits flow.splits)
  qed
next
  case SuccessTimeout
  with assms show ?thesis by (auto simp: load_inv_def split: if_splits)
qed

lemma load_inv_run:
  "page_run es st = Some st' \<Longrightarrow> \<not> list_ex disconnect_confirmed es \<Longrightarrow> load_inv st \<Longrightarrow>
   load_inv st'"
proof (induction es arbitrary: st)
  case Nil
  then show ?case by simp
next
  case (Cons e es)
  from Cons.prems(1) obtain s1 where
    s1: "page_step e st = Some s1" and rest: "page_run es s1 = Some st'"
    by (auto split: option.splits)
  from Cons.prems(2) have ne: "\<not> disconnect_confirmed e" and nes: "\<not> list_ex disconnect_confirmed es"
    by simp_all
  from load_inv_step [OF s1 ne Cons.prems(3)] have "load_inv s1" .
  from Cons.IH [OF rest nes this] show ?case .
qed

lemma load_inv_mounted: "load_inv (fetchData page_initial)"
  by (simp add: load_inv_def fetchData_def page_initial_def)

lemma settled_all2:
  "settled (promise_all2 p q) \<longleftrightarrow> rejected p \<or> rejected q \<or> (fulfilled p \<and> fulfilled q)"
  by (cases p; cases q) auto

text \<open>
  C2 (amended). In every session of the page without a confirmed disconnect, the page
  has left the loading state exactly when both initial fetches are fulfilled or at least
  one of them is rejected: a rejection ends the loading state at once, while the other
  fetch may still be pending. When either fetch is rejected, \<open>error\<close> is the one generic
  message, whichever fetch it was and whatever its error carried; otherwise \<open>error\<close>
  is empty.
\<close>

theorem initial_load_leaves_loading:
  "page_session es = Some st \<Longrightarrow> \<not> list_ex disconnect_confirmed es \<Longrightarrow>
     (\<not> loading st \<longleftrightarrow>
        rejected (adaptersFetch st) \<or> rejected (connectionsFetch st) \<or>
        (fulfilled (adaptersFetch st) \<and> fulfilled (connectionsFetch st))) \<and>
     (rejected (adaptersFetch st) \<or> rejected (connectionsFetch st) \<longrightarrow>
        error st = Some ''Failed to load integration data. Please try again later.'') \<and>
     (\<not> (rejected (adaptersFetch st) \<or> rejected (connectionsFetch st)) \<longrightarrow> error st = None)"
proof -
  assume run: "page_session es = Some st" and nd: "\<not> list_ex disconnect_confirmed es"
  from run have "page_run es (fetchData page_initial) = Some st"
    by (simp add: page_session_def)
  from load_inv_run [OF this nd load_inv_mounted] have inv: "load_inv st" .
  then show ?thesis
    by (auto simp: load_inv_def settled_all2 load_failed_message_def)
qed

theorem initial_load_leaves_loading_witness:
  "\<exists>st. page_session [AdapterChange ''square'',
                       ConnectionsSettled (Inl (error_with_message ''boom''))] = Some st \<and>
        adaptersFetch st = Pending \<and> \<not> loading st \<and>
        error st = Some ''Failed to load integration data. Please try again later.''"
proof -
  let ?es = "[AdapterChange ''square'', ConnectionsSettled (Inl (error_with_message ''boom''))]"
  obtain st where run: "page_session ?es = Some st"
    and rej: "rejected (connectionsFetch st)" and pen: "adaptersFetch st = Pending"
    by (simp add: page_session_def fetchData_def page_initial_def handleAdapterChange_def
        connections_settled_def initial_settled_def settle_def)
  have nd: "\<not> list_ex disconnect_confirmed ?es"
    by simp
  from initial_load_leaves_loading [OF run nd] rej run pen show ?thesis
    by blast
qed

text \<open>
  C2 as stated fails when \<open>getAdapters\<close> is rejected first: the page has left the
  loading state, and \<open>getConnections\<close> has neither completed nor failed.
\<close>

theorem initial_load_fail_fast_counterexample:
  "map_option loading (page_session [AdaptersSettled (Inl network_error)]) = Some False \<and>
   map_option connectionsFetch (page_session [AdaptersSettled (Inl network_error)]) = Some Pending"
  by (simp add: page_session_def fetchData_def page_initial_def adapters_settled_def
      initial_settled_def settle_def)


section \<open>Integrations page: the refresh after a connect\<close>

lemma count_issued_append:
  "count_issued c (xs @ ys) = count_issued c xs + count_issued c ys"
  by (simp add: count_issued_def)

lemma filter_update_count:
  "n < length xs \<Longrightarrow>
   length (filter P (xs[n := y])) + (if P (xs ! n) then 1 else 0) =
   length (filter P xs) + (if P y then 1 else 0)"
proof (induction xs arbitrary: n)
  case Nil
  then show ?case by simp
next
  case (Cons x xs)
  show ?case
  proof (cases n)
    case 0
    then show ?thesis by simp
  next
    case (Suc m)
    with Cons.prems have "m < length xs" by simp
    from Cons.IH [OF this] Suc show ?thesis by simp
  qed
qed

lemma flows_update_connect:
  "flow_at st n = Some f \<Longrightarrow> \<not> awaits_connect g \<Longrightarrow>
   length (filter awaits_connect ((flows st)[n := g])) + (if awaits_connect f then 1 else 0) =
   length (filter awaits_connect (flows st))"
  using filter_update_count [of n "flows st" awaits_connect g] flow_atD [of st n f]
  by auto

lemma flows_update_disconnect:
  "flow_at st n = Some f \<Longrightarrow> \<not> awaits_disconnect g \<Longrightarrow>
   length (filter awaits_disconnect ((flows st)[n := g])) +
     (if awaits_disconnect f then 1 else 0) =
   length (filter awaits_disconnect (flows st))"
  using filter_update_count [of n "flows st" awaits_disconnect g] flow_atD [of st n f]
  by auto

text \<open>What one event does to the flows and to the trace.\<close>

lemma initial_settled_flows: "flows (initial_settled before st) = flows st"
  by (cases "promise_all2 (adaptersFetch st) (connectionsFetch st)")
     (auto simp: initial_settled_def)

lemma initial_settled_trace: "trace (initial_settled before st) = trace st"
  by (cases "promise_all2 (adaptersFetch st) (connectionsFetch st)")
     (auto simp: initial_settled_def)

lemma page_step_connect_budget:
  assumes "page_step e st = Some st'"
  shows "length (filter awaits_connect (flows st')) + (if connect_settled e then 1 else 0)
       \<le> length (filter awaits_connect (flows st)) + (if e = SubmitConnect then 1 else 0)"
proof (cases e)
  case (AdaptersSettled r)
  with assms show ?thesis
    by (auto simp: adapters_settled_def initial_settled_flows split: if_splits)
next
  case (ConnectionsSettled r)
  with assms show ?thesis
    by (auto simp: connections_settled_def initial_settled_flows split: if_splits)
next
  case (AdapterChange v)
  with assms show ?thesis by (auto simp: handleAdapterChange_def)
next
  case (CredentialChange n v)
  with assms show ?thesis by (auto simp: handleCredentialChange_def)
next
  case SubmitConnect
  with assms show ?thesis
    by (cases "selectedAdapter st = []") (auto simp: handleConnect_def)
next
  case (ConnectSettled n r)
  with assms obtain sel creds where f: "flow_at st n = Some (AwaitConnect sel creds)"
    and s: "st' = handleConnect_connected n sel creds r st"
    by (auto split: option.splits flow.splits)
  have "flows st' = (flows st)[n := AwaitConnectRefresh sel] \<or>
        flows st' = (flows st)[n := Finished]"
    unfolding s by (cases r) (auto simp: handleConnect_connected_def handleConnect_catch_def)
  then show ?thesis
    using flows_update_connect [OF f, of "AwaitConnectRefresh sel"]
      flows_update_connect [OF f, of Finished] ConnectSettled
    by auto
next
  case (DisconnectClick c b)
  with assms show ?thesis by (cases b) (auto simp: handleDisconnect_def)
next
  case (DisconnectSettled n r)
  with assms obtain c where f: "flow_at st n = Some (AwaitDisconnect c)"
    and s: "st' = handleDisconnect_disconnected n c r st"
    by (auto split: option.splits flow.splits)
  have "flows st' = (flows st)[n := AwaitDisconnectRefresh] \<or>
        flows st' = (flows st)[n := Finished]"
    unfolding s
    by (cases r) (auto simp: handleDisconnect_disconnected_def handleDisconnect_catch_def)
  then show ?thesis
    using flows_update_connect [OF f, of AwaitDisconnectRefresh]
      flows_update_connect [OF f, of Finished] DisconnectSettled
    by auto
next
  case (RefreshSettled n r)
  with assms obtain f where f: "flow_at st n = Some f" and nf: "\<not> awaits_connect f"
    and fl: "flows st' = (flows st)[n := Finished]"
    by (cases r)
       (auto simp: handleConnect_refreshed_def handleDisconnect_refreshed_def
          handleConnect_catch_def handleDisconnect_catch_def
          split: option.splits flow.splits)
  then show ?thesis
    using flows_update_connect [OF f, of Finished] RefreshSettled by auto
next
  case SuccessTimeout
  with assms show ?thesis by (auto split: if_splits)
qed

lemma page_step_disconnect_budget:
  assumes "page_step e st = Some st'"
  shows "length (filter awaits_disconnect (flows st')) + (if disconnect_settled e then 1 else 0)
       \<le> length (filter awaits_disconnect (flows st)) + (if disconnect_confirmed e then 1 else 0)"
proof (cases e)
  case (AdaptersSettled r)
  with assms show ?thesis
    by (auto simp: adapters_settled_def initial_settled_flows split: if_splits)
next
  case (ConnectionsSettled r)
  with assms show ?thesis
    by (auto simp: connections_settled_def initial_settled_flows split: if_splits)
next
  case (AdapterChange v)
  with assms show ?thesis by (auto simp: handleAdapterChange_def)
next
  case (CredentialChange n v)
  with assms show ?thesis by (auto simp: handleCredentialChange_def)
next
  case SubmitConnect
  with assms show ?thesis
    by (cases "selectedAdapter st = []") (auto simp: handleConnect_def)
next
  case (ConnectSettled n r)
  with assms obtain sel creds where f: "flow_at st n = Some (AwaitConnect sel creds)"
    and s: "st' = handleConnect_connected n sel creds r st"
    by (auto split: option.splits flow.splits)
  have "flows st' = (flows st)[n := AwaitConnectRefresh sel] \<or>
        flows st' = (flows st)[n := Finished]"
    unfolding s by (cases r) (auto simp: handleConnect_connected_def handleConnect_catch_def)
  then show ?thesis
    using flows_update_disconnect [OF f, of "AwaitConnectRefresh sel"]
      flows_update_disconnect [OF f, of Finished] ConnectSettled
    by auto
next
  case (DisconnectClick c b)
  with assms show ?thesis by (cases b) (auto simp: handleDisconnect_def)
next
  case (DisconnectSettled n r)
  with assms obtain c where f: "flow_at st n = Some (AwaitDisconnect c)"
    and s: "st' = handleDisconnect_disconnected n c r st"
    by (auto split: option.splits flow.splits)
  have "flows st' = (flows st)[n := AwaitDisconnectRefresh] \<or>
        flows st' = (flows st)[n := Finished]"
    unfolding s
    by (cases r) (auto simp: handleDisconnect_disconnected_def handleDisconnect_catch_def)
  then show ?thesis
    using flows_update_disconnect [OF f, of AwaitDisconnectRefresh]
      flows_update_disconnect [OF f, of Finished] DisconnectSettled
    by auto
next
  case (RefreshSettled n r)
  with assms obtain f where f: "flow_at st n = Some f" and nf: "\<not> awaits_disconnect f"
    and fl: "flows st' = (flows st)[n := Finished]"
    by (cases r)
       (auto simp: handleConnect_refreshed_def handleDisconnect_refreshed_def
          handleConnect_catch_def handleDisconnect_catch_def
          split: option.splits flow.splits)
  then show ?thesis
    using flows_update_disconnect [OF f, of Finished] RefreshSettled by auto
next
  case SuccessTimeout
  with assms show ?thesis by (auto split: if_splits)
qed

lemma page_step_trace:
  assumes "page_step e st = Some st'"
  shows "\<exists>tr. trace st' = trace st @ tr \<and>
           count_issued GetConnections tr =
             (if connect_resolved e \<or> disconnect_resolved e then 1 else 0) \<and>
           (connect_resolved e \<longrightarrow>
              (\<exists>sel creds. tr = [Resolved (Connect sel creds), Issued GetConnections]))"
proof (cases e)
  case (AdaptersSettled r)
  with assms show ?thesis
    by (cases r)
       (auto simp: adapters_settled_def initial_settled_trace settled_entry_def
          count_issued_def split: if_splits)
next
  case (ConnectionsSettled r)
  with assms show ?thesis
    by (cases r)
       (auto simp: connections_settled_def initial_settled_trace settled_entry_def
          count_issued_def split: if_splits)
next
  case (AdapterChange v)
  with assms show ?thesis by (auto simp: handleAdapterChange_def count_issued_def)
next
  case (CredentialChange n v)
  with assms show ?thesis by (auto simp: handleCredentialChange_def count_issued_def)
next
  case SubmitConnect
  with assms show ?thesis
    by (cases "selectedAdapter st = []") (auto simp: handleConnect_def count_issued_def)
next
  case (ConnectSettled n r)
  with assms obtain sel creds where s: "st' = handleConnect_connected n sel creds r st"
    by (auto split: option.splits flow.splits)
  show ?thesis
    unfolding s using ConnectSettled
    by (cases r)
       (auto simp: handleConnect_connected_def handleConnect_catch_def count_issued_def)
next
  case (DisconnectClick c b)
  with assms show ?thesis by (cases b) (auto simp: handleDisconnect_def count_issued_def)
next
  case (DisconnectSettled n r)
  with assms obtain c where s: "st' = handleDisconnect_disconnected n c r st"
    by (auto split: option.splits flow.splits)
  show ?thesis
    unfolding s using DisconnectSettled
    by (cases r)
       (auto simp: handleDisconnect_disconnected_def handleDisconnect_catch_def
          count_issued_def)
next
  case (RefreshSettled n r)
  with assms show ?thesis
    by (cases r)
       (auto simp: handleConnect_refreshed_def handleDisconnect_refreshed_def
          handleConnect_catch_def handleDisconnect_catch_def count_issued_def
          split: option.splits flow.splits)
next
  case SuccessTimeout
  with assms show ?thesis by (auto simp: count_issued_def split: if_splits)
qed

lemma page_run_trace:
  "page_run es st = Some st' \<Longrightarrow>
   \<exists>tr. trace st' = trace st @ tr \<and>
        count_issued GetConnections tr =
          length (filter connect_resolved es) + length (filter disconnect_resolved es)"
proof (induction es arbitrary: st)
  case Nil
  then show ?case by (simp add: count_issued_def)
next
  case (Cons e es)
  from Cons.prems obtain s1 where
    s1: "page_step e st = Some s1" and rest: "page_run es s1 = Some st'"
    by (auto split: option.splits)
  from page_step_trace [OF s1] obtain t1 where
    t1: "trace s1 = trace st @ t1"
    and c1: "count_issued GetConnections t1 =
               (if connect_resolved e \<or> disconnect_resolved e then 1 else 0)"
    by blast
  from Cons.IH [OF rest] obtain t2 where
    t2: "trace st' = trace s1 @ t2"
    and c2: "count_issued GetConnections t2 =
               length (filter connect_resolved es) + length (filter disconnect_resolved es)"
    by blast
  have both: "\<not> (connect_resolved e \<and> disconnect_resolved e)"
    by (cases e) auto
  have "trace st' = trace st @ (t1 @ t2)"
    by (simp add: t1 t2)
  moreover have "count_issued GetConnections (t1 @ t2) =
      length (filter connect_resolved (e # es)) + length (filter disconnect_resolved (e # es))"
    using c1 c2 both by (auto simp: count_issued_append)
  ultimately show ?case by blast
qed

lemma page_run_budgets:
  "page_run es st = Some st' \<Longrightarrow>
   length (filter awaits_connect (flows st')) + length (filter connect_settled es)
     \<le> length (filter awaits_connect (flows st)) + count_list es SubmitConnect \<and>
   length (filter awaits_disconnect (flows st')) + length (filter disconnect_settled es)
     \<le> length (filter awaits_disconnect (flows st)) + length (filter disconnect_confirmed es)"
proof (induction es arbitrary: st)
  case Nil
  then show ?case by simp
next
  case (Cons e es)
  from Cons.prems obtain s1 where
    s1: "page_step e st = Some s1" and rest: "page_run es s1 = Some st'"
    by (auto split: option.splits)
  note a = page_step_connect_budget [OF s1] page_step_disconnect_budget [OF s1]
  note b = Cons.IH [OF rest]
  show ?case
  proof
    show "length (filter awaits_connect (flows st')) + length (filter connect_settled (e # es))
       \<le> length (filter awaits_connect (flows st)) + count_list (e # es) SubmitConnect"
      using a(1) b by (auto split: if_splits)
    show "length (filter awaits_disconnect (flows st')) +
            length (filter disconnect_settled (e # es))
       \<le> length (filter awaits_disconnect (flows st)) +
            length (filter disconnect_confirmed (e # es))"
      using a(2) b by (auto split: if_splits)
  qed
qed

lemma page_run_append:
  "page_run (es1 @ es2) st = Some st' \<longleftrightarrow>
     (\<exists>s1. page_run es1 st = Some s1 \<and> page_run es2 s1 = Some st')"
  by (induction es1 arbitrary: st) (auto split: option.splits)

lemma filter_le_length:
  "(\<And>x. P x \<Longrightarrow> Q x) \<Longrightarrow> length (filter P xs) \<le> length (filter Q xs)"
  by (induction xs) auto

lemma connect_session_runs:
  "page_session connect_session \<noteq> None"
  by (simp add: connect_session_def page_session_def fetchData_def page_initial_def
      adapters_settled_def connections_settled_def initial_settled_def settle_def
      handleAdapterChange_def handleCredentialChange_def handleConnect_def
      handleConnect_connected_def handleConnect_refreshed_def flow_at_def)

lemma disconnect_session_trace:
  "map_option trace (page_session disconnect_session) =
     Some [Issued GetAdapters, Issued GetConnections,
           Resolved GetAdapters, Resolved GetConnections,
           Issued (Connect ''square''
             [''apiKey'' \<mapsto> ''test-api-key'', ''locationId'' \<mapsto> ''test-location'']),
           Resolved (Connect ''square''
             [''apiKey'' \<mapsto> ''test-api-key'', ''locationId'' \<mapsto> ''test-location'']),
           Issued GetConnections, Resolved GetConnections,
           Issued (Disconnect ''conn_123''), Resolved (Disconnect ''conn_123''),
           Issued GetConnections, Resolved GetConnections]"
  by (simp add: disconnect_session_def connect_session_def page_session_def fetchData_def
      page_initial_def adapters_settled_def connections_settled_def initial_settled_def
      settle_def settled_entry_def handleAdapterChange_def handleCredentialChange_def
      handleConnect_def handleConnect_connected_def handleConnect_refreshed_def
      handleDisconnect_def handleDisconnect_disconnected_def handleDisconnect_refreshed_def
      flow_at_def mockAdapters_def initialCredentials_def obj_assign_def obj_define_def
      obj_spread_def)

text \<open>
  C1 (amended). In every session of the page in which the connect form is submitted once
  and its \<open>connect\<close> call resolves, \<open>getConnections\<close> is issued exactly once for that
  connect, immediately after the trace entry of the resolution. The other calls of
  \<open>getConnections\<close> in the session are the one of the initial load and one for each
  disconnect that resolves: two calls in all when no disconnect is confirmed, the
  initial one before the \<open>connect\<close> call resolves and none after the refresh.
\<close>

theorem connect_refreshes_once:
  assumes run: "page_session es = Some st"
    and once: "count_list es SubmitConnect = 1"
    and ok: "list_ex connect_resolved es"
  shows "\<exists>pre sel creds post.
        trace st = pre @ [Resolved (Connect sel creds), Issued GetConnections] @ post \<and>
        count_issued GetConnections pre + count_issued GetConnections post =
          1 + length (filter disconnect_resolved es) \<and>
        count_issued GetConnections (trace st) = 2 + length (filter disconnect_resolved es) \<and>
        (\<not> list_ex disconnect_confirmed es \<longrightarrow>
           count_issued GetConnections (trace st) = 2 \<and>
           count_issued GetConnections pre = 1 \<and>
           count_issued GetConnections post = 0)"
proof -
  let ?s0 = "fetchData page_initial"
  have run0: "page_run es ?s0 = Some st"
    using run by (simp add: page_session_def)
  have fl0: "flows ?s0 = []" and tr0: "trace ?s0 = [Issued GetAdapters, Issued GetConnections]"
    by (simp_all add: fetchData_def page_initial_def)
  note budgets = page_run_budgets [OF run0]
  from budgets fl0 once have cs: "length (filter connect_settled es) \<le> 1"
    by simp
  have "length (filter connect_resolved es) \<le> length (filter connect_settled es)"
  proof (rule filter_le_length)
    fix x show "connect_resolved x \<Longrightarrow> connect_settled x"
      by (cases x rule: connect_resolved.cases) auto
  qed
  with cs have cr: "length (filter connect_resolved es) \<le> 1" by simp
  have drs: "length (filter disconnect_resolved es) \<le> length (filter disconnect_settled es)"
  proof (rule filter_le_length)
    fix x show "disconnect_resolved x \<Longrightarrow> disconnect_settled x"
      by (cases x rule: disconnect_resolved.cases) auto
  qed
  from ok obtain es1 e es2 where
    split: "es = es1 @ e # es2" and e: "connect_resolved e"
    by (auto simp: list_ex_iff dest: split_list)
  from cr e have cr1: "length (filter connect_resolved es1) = 0"
    and cr2: "length (filter connect_resolved es2) = 0"
    by (simp_all add: split)
  have ne: "\<not> disconnect_resolved e"
    using e by (cases e rule: connect_resolved.cases) auto
  have dr: "length (filter disconnect_resolved es) =
      length (filter disconnect_resolved es1) + length (filter disconnect_resolved es2)"
    using ne by (simp add: split)
  from run0 obtain s1 s2 where
    r1: "page_run es1 ?s0 = Some s1" and st: "page_step e s1 = Some s2"
    and r2: "page_run es2 s2 = Some st"
    by (auto simp: split page_run_append split: option.splits)
  from page_run_trace [OF r1] cr1 obtain t1 where
    t1: "trace s1 = trace ?s0 @ t1"
    and c1: "count_issued GetConnections t1 = length (filter disconnect_resolved es1)"
    by auto
  from page_step_trace [OF st] e obtain sel creds where
    t: "trace s2 = trace s1 @ [Resolved (Connect sel creds), Issued GetConnections]"
    by auto
  from page_run_trace [OF r2] cr2 obtain t2 where
    t2: "trace st = trace s2 @ t2"
    and c2: "count_issued GetConnections t2 = length (filter disconnect_resolved es2)"
    by auto
  let ?pre = "trace ?s0 @ t1"
  have whole: "trace st = ?pre @ [Resolved (Connect sel creds), Issued GetConnections] @ t2"
    by (simp add: t2 t t1)
  have pre: "count_issued GetConnections ?pre = 1 + length (filter disconnect_resolved es1)"
    using c1 by (simp add: count_issued_append tr0 count_issued_def)
  have mid: "count_issued GetConnections [Resolved (Connect sel creds), Issued GetConnections] = 1"
    by (simp add: count_issued_def)
  have parts: "count_issued GetConnections ?pre + count_issued GetConnections t2 =
      1 + length (filter disconnect_resolved es)"
    using pre c2 dr by simp
  have total: "count_issued GetConnections (trace st) =
      2 + length (filter disconnect_resolved es)"
    unfolding whole using pre mid c2 dr by (simp only: count_issued_append)
  have quiet: "\<not> list_ex disconnect_confirmed es \<longrightarrow>
      count_issued GetConnections (trace st) = 2 \<and>
      count_issued GetConnections ?pre = 1 \<and> count_issued GetConnections t2 = 0"
  proof
    assume nd: "\<not> list_ex disconnect_confirmed es"
    then have "length (filter disconnect_confirmed es) = 0"
      by (simp add: list_ex_iff filter_empty_conv)
    with budgets fl0 have "length (filter disconnect_settled es) = 0"
      by simp
    with drs have z: "length (filter disconnect_resolved es) = 0"
      by simp
    with dr have "length (filter disconnect_resolved es1) = 0"
      and "length (filter disconnect_resolved es2) = 0"
      by simp_all
    with total z pre c2
    show "count_issued GetConnections (trace st) = 2 \<and>
      count_issued GetConnections ?pre = 1 \<and> count_issued GetConnections t2 = 0"
      by simp
  qed
  show ?thesis
    by (intro exI [of _ ?pre] exI [of _ sel] exI [of _ creds] exI [of _ t2] conjI)
       (rule whole parts total quiet)+
qed

theorem connect_refreshes_once_witness:
  "\<exists>st. page_session connect_session = Some st \<and>
        count_list connect_session SubmitConnect = 1 \<and>
        list_ex connect_resolved connect_session \<and>
        \<not> list_ex disconnect_confirmed connect_session \<and>
        count_issued GetConnections (trace st) = 2"
proof -
  obtain st where run: "page_session connect_session = Some st"
    using connect_session_runs by blast
  have once: "count_list connect_session SubmitConnect = 1"
    by (simp add: connect_session_def)
  have ok: "list_ex connect_resolved connect_session"
    by (simp add: connect_session_def)
  have nd: "\<not> list_ex disconnect_confirmed connect_session"
    by (simp add: connect_session_def)
  from connect_refreshes_once [OF run once ok] obtain pre sel creds post where
    "\<not> list_ex disconnect_confirmed connect_session \<longrightarrow>
       count_issued GetConnections (trace st) = 2 \<and>
       count_issued GetConnections pre = 1 \<and>
       count_issued GetConnections post = 0"
    by (elim exE conjE)
  with nd have "count_issued GetConnections (trace st) = 2"
    by simp
  with run once ok nd show ?thesis
    by (intro exI [of _ st] conjI)
qed

text \<open>
  C1 as stated fails when the same session goes on with a confirmed disconnect:
  \<open>handleDisconnect\<close> refreshes the list as well, and \<open>getConnections\<close> has been
  issued three times.
\<close>

theorem disconnect_third_refresh_counterexample:
  "count_list disconnect_session SubmitConnect = 1 \<and>
   list_ex connect_resolved disconnect_session \<and>
   map_option (count_issued GetConnections) (map_option trace (page_session disconnect_session)) =
     Some 3"
proof -
  have once: "count_list disconnect_session SubmitConnect = 1"
    by (simp add: disconnect_session_def connect_session_def)
  have ok: "list_ex connect_resolved disconnect_session"
    by (simp add: disconnect_session_def connect_session_def)
  have three: "map_option (count_issued GetConnections)
      (map_option trace (page_session disconnect_session)) = Some 3"
    by (simp only: disconnect_session_trace) (simp add: count_issued_def)
  from once ok three show ?thesis by (intro conjI)
qed


section \<open>Webhook monitor: polling and deactivation\<close>

lemma div_carry: "a div c + (a mod c + b) div c = (a + b) div (c::nat)"
proof (cases "c = 0")
  case True
  then show ?thesis by simp
next
  case False
  have "(a + b) div c = (c * (a div c) + (a mod c + b)) div c"
    by (simp add: add.assoc [symmetric])
  also have "\<dots> = a div c + (a mod c + b) div c"
    by (rule div_mult_self4 [OF False])
  finally show ?thesis by simp
qed

lemma tick_timer:
  assumes "pollingInterval st = Some k" and "k < polling_period"
  shows "fetches_issued (tick st) = fetches_issued st + (k + 1) div polling_period"
    and "pollingInterval (tick st) = Some ((k + 1) mod polling_period)"
proof -
  show "fetches_issued (tick st) = fetches_issued st + (k + 1) div polling_period"
  proof (cases "polling_period \<le> k + 1")
    case True
    with assms(2) have "k + 1 = polling_period" by simp
    then have "(k + 1) div polling_period = 1"
      using assms(2) by simp
    with True assms(1) show ?thesis
      by (simp add: tick_def fetchWebhookEvents_def)
  next
    case False
    then show ?thesis using assms(1) by (simp add: tick_def)
  qed
  show "pollingInterval (tick st) = Some ((k + 1) mod polling_period)"
  proof (cases "polling_period \<le> k + 1")
    case True
    with assms(2) have "k + 1 = polling_period" by simp
    then have "(k + 1) mod polling_period = 0" by simp
    with True assms(1) show ?thesis
      by (simp add: tick_def fetchWebhookEvents_def)
  next
    case False
    then show ?thesis using assms(1) by (simp add: tick_def)
  qed
qed

lemma elapse_timer:
  "pollingInterval st = Some k \<Longrightarrow> k < polling_period \<Longrightarrow>
   fetches_issued (elapse d st) = fetches_issued st + (k + d) div polling_period \<and>
   pollingInterval (elapse d st) = Some ((k + d) mod polling_period)"
proof (induction d arbitrary: st k)
  case 0
  then show ?case by simp
next
  case (Suc d)
  let ?k = "(k + 1) mod polling_period"
  have pos: "0 < polling_period" using Suc.prems(2) by simp
  have t1: "fetches_issued (tick st) = fetches_issued st + (k + 1) div polling_period"
    and t2: "pollingInterval (tick st) = Some ?k"
    using tick_timer [OF Suc.prems] by simp_all
  have lt: "?k < polling_period" using pos by simp
  from Suc.IH [OF t2 lt]
  have i: "fetches_issued (elapse d (tick st)) =
             fetches_issued (tick st) + (?k + d) div polling_period"
    and p: "pollingInterval (elapse d (tick st)) = Some ((?k + d) mod polling_period)"
    by simp_all
  have "(k + 1) div polling_period + (?k + d) div polling_period =
        (k + Suc d) div polling_period"
    using div_carry [of "k + 1" polling_period d] by simp
  moreover have "(?k + d) mod polling_period = (k + Suc d) mod polling_period"
    by (simp add: mod_add_left_eq)
  ultimately show ?case using i p t1 by simp
qed

lemma elapse_no_interval: "pollingInterval st = None \<Longrightarrow> elapse d st = st"
  by (induction d) (simp_all add: tick_def)

lemma dropped_updates: "\<not> mounted st \<Longrightarrow> foldl (\<lambda>s u. setState u s) st us = st"
  by (induction us) (simp_all add: setState_def)

lemma settled_after_unmount:
  "\<not> mounted st \<Longrightarrow>
   fetchWebhookEvents_settled r st = st\<lparr>fetches_pending := fetches_pending st - 1\<rparr>"
  by (simp add: fetchWebhookEvents_settled_def dropped_updates)

lemma unmounted_step:
  assumes "monitor_step e st = Some st'" and "\<not> mounted st" and "pollingInterval st = None"
  shows "\<not> mounted st' \<and> pollingInterval st' = None \<and>
         webhookEvents st' = webhookEvents st \<and> sources st' = sources st \<and>
         monitor_error st' = monitor_error st \<and> monitor_loading st' = monitor_loading st \<and>
         filterSource st' = filterSource st \<and> fetches_issued st' = fetches_issued st"
proof (cases e)
  case (Elapse d)
  with assms show ?thesis by (simp add: elapse_no_interval)
next
  case (WebhooksSettled r)
  with assms show ?thesis by (auto simp: settled_after_unmount split: if_splits)
next
  case (FilterChange v)
  with assms show ?thesis by simp
next
  case Unmount
  with assms show ?thesis by simp
qed

lemma unmounted_run:
  "monitor_run es st = Some st' \<Longrightarrow> \<not> mounted st \<Longrightarrow> pollingInterval st = None \<Longrightarrow>
   webhookEvents st' = webhookEvents st \<and> sources st' = sources st \<and>
   monitor_error st' = monitor_error st \<and> monitor_loading st' = monitor_loading st \<and>
   filterSource st' = filterSource st \<and> fetches_issued st' = fetches_issued st"
proof (induction es arbitrary: st)
  case Nil
  then show ?case by simp
next
  case (Cons e es)
  from Cons.prems(1) obtain s1 where
    s1: "monitor_step e st = Some s1" and rest: "monitor_run es s1 = Some st'"
    by (auto split: option.splits)
  from unmounted_step [OF s1 Cons.prems(2,3)] Cons.IH [OF rest] show ?case
    by simp
qed

lemma unmount_run:
  assumes "monitor_run (Unmount # es) st = Some st'"
  shows "webhookEvents st' = webhookEvents st \<and> sources st' = sources st \<and>
   monitor_error st' = monitor_error st \<and> monitor_loading st' = monitor_loading st \<and>
   filterSource st' = filterSource st \<and> fetches_issued st' = fetches_issued st"
proof -
  from assms have m: "mounted st" and r: "monitor_run es (monitor_unmount st) = Some st'"
    by (auto split: if_splits)
  from unmounted_run [OF r] show ?thesis
    by (simp add: monitor_unmount_def)
qed

lemma updates_runtime:
  "pollingInterval (foldl (\<lambda>s u. setState u s) st us) = pollingInterval st \<and>
   fetches_issued (foldl (\<lambda>s u. setState u s) st us) = fetches_issued st"
proof (induction us arbitrary: st)
  case Nil
  show ?case by simp
next
  case (Cons u us)
  have "pollingInterval (setState u st) = pollingInterval st \<and>
        fetches_issued (setState u st) = fetches_issued st"
    by (cases u) (simp_all add: setState_def)
  with Cons.IH [of "setState u st"] show ?case by simp
qed

lemma mounted_step:
  assumes "monitor_step e st = Some st'" and "e \<noteq> Unmount"
    and "pollingInterval st = Some k" and "k < polling_period"
  shows "fetches_issued st' = fetches_issued st + (k + elapsed e) div polling_period \<and>
         pollingInterval st' = Some ((k + elapsed e) mod polling_period)"
proof (cases e)
  case (Elapse d)
  with assms(1) have "st' = elapse d st" by simp
  with elapse_timer [OF assms(3,4), of d] Elapse show ?thesis by simp
next
  case (WebhooksSettled r)
  with assms(1) have "st' = fetchWebhookEvents_settled r st"
    by (simp split: if_splits)
  then show ?thesis
    using assms(3,4) WebhooksSettled
    by (simp add: fetchWebhookEvents_settled_def updates_runtime)
next
  case (FilterChange v)
  with assms(1) have "st' = setState (SetFilterSource v) st"
    by (simp split: if_splits)
  then show ?thesis
    using assms(3,4) FilterChange by (simp add: setState_def)
next
  case Unmount
  with assms(2) show ?thesis by simp
qed

lemma polling_run:
  "monitor_run es st = Some st' \<Longrightarrow> Unmount \<notin> set es \<Longrightarrow>
   pollingInterval st = Some k \<Longrightarrow> k < polling_period \<Longrightarrow>
   fetches_issued st' = fetches_issued st + (k + total_elapsed es) div polling_period \<and>
   pollingInterval st' = Some ((k + total_elapsed es) mod polling_period)"
proof (induction es arbitrary: st k)
  case Nil
  then show ?case by (simp add: total_elapsed_def)
next
  case (Cons e es)
  from Cons.prems(1) obtain s1 where
    s1: "monitor_step e st = Some s1" and rest: "monitor_run es s1 = Some st'"
    by (auto split: option.splits)
  from Cons.prems(2) have ne: "e \<noteq> Unmount" and nes: "Unmount \<notin> set es"
    by auto
  let ?k = "(k + elapsed e) mod polling_period"
  have pos: "0 < polling_period" using Cons.prems(4) by simp
  from mounted_step [OF s1 ne Cons.prems(3,4)]
  have i1: "fetches_issued s1 = fetches_issued st + (k + elapsed e) div polling_period"
    and p1: "pollingInterval s1 = Some ?k"
    by simp_all
  have lt: "?k < polling_period" using pos by simp
  from Cons.IH [OF rest nes p1 lt]
  have i2: "fetches_issued st' = fetches_issued s1 + (?k + total_elapsed es) div polling_period"
    and p2: "pollingInterval st' = Some ((?k + total_elapsed es) mod polling_period)"
    by simp_all
  have t: "total_elapsed (e # es) = elapsed e + total_elapsed es"
    by (simp add: total_elapsed_def)
  have "(k + elapsed e) div polling_period + (?k + total_elapsed es) div polling_period =
        (k + total_elapsed (e # es)) div polling_period"
    using div_carry [of "k + elapsed e" polling_period "total_elapsed es"]
    by (simp add: t add.assoc)
  moreover have "(?k + total_elapsed es) mod polling_period =
        (k + total_elapsed (e # es)) mod polling_period"
    by (simp add: t mod_add_left_eq add.assoc)
  ultimately show ?case using i1 i2 p2 by simp
qed

lemma monitor_mounted_start:
  "fetches_issued (monitor_mount monitor_initial) = 1 \<and>
   pollingInterval (monitor_mount monitor_initial) = Some 0 \<and>
   mounted (monitor_mount monitor_initial) \<and>
   fetches_pending (monitor_mount monitor_initial) = 1"
  by (simp add: monitor_mount_def fetchWebhookEvents_def monitor_initial_def)

text \<open>
  While the monitor is mounted, a settling fetch replaces the snapshot and the source
  list, or sets the error.
\<close>

lemma settled_while_mounted:
  "mounted st \<Longrightarrow>
   fetchWebhookEvents_settled (Inr webhooks) st =
     st\<lparr>webhookEvents := webhooks, sources := unique_sources webhooks,
        monitor_error := None, monitor_loading := False,
        fetches_pending := fetches_pending st - 1\<rparr> \<and>
   fetchWebhookEvents_settled (Inl err) st =
     st\<lparr>monitor_error := Some ''Failed to load webhook events. Please try again later.'',
        monitor_loading := False, fetches_pending := fetches_pending st - 1\<rparr>"
  by (simp add: fetchWebhookEvents_settled_def fetchWebhookEvents_updates_def setState_def)

lemma unique_sources_mock: "unique_sources mockWebhookEvents = [''square'', ''sendgrid'']"
  by (simp add: unique_sources_def mockWebhookEvents_def)

text \<open>
  C3. When a \<open>getWebhooks\<close> call is pending at the moment the monitor is unmounted, its
  response can still arrive, and it changes neither the event snapshot, nor the source
  list, nor the error state: \<open>fetchWebhookEvents\<close> makes its setter calls, and React
  drops them for the unmounted component. More generally nothing that happens after the
  unmount changes a cell of the monitor.
\<close>

theorem inflight_response_discarded:
  "(mounted st \<and> 0 < fetches_pending st \<longrightarrow>
      (\<exists>s. monitor_run [Unmount, WebhooksSettled r] st = Some s \<and>
           webhookEvents s = webhookEvents st \<and> sources s = sources st \<and>
           monitor_error s = monitor_error st \<and>
           fetches_pending s = fetches_pending st - 1)) \<and>
   (monitor_run (Unmount # es) st = Some st' \<longrightarrow>
      webhookEvents st' = webhookEvents st \<and> sources st' = sources st \<and>
      monitor_error st' = monitor_error st \<and> monitor_loading st' = monitor_loading st \<and>
      filterSource st' = filterSource st)"
proof (intro conjI impI)
  assume h: "mounted st \<and> 0 < fetches_pending st"
  have "monitor_run [Unmount, WebhooksSettled r] st =
      Some ((monitor_unmount st)\<lparr>fetches_pending := fetches_pending st - 1\<rparr>)"
    using h by (simp add: settled_after_unmount monitor_unmount_def)
  then show "\<exists>s. monitor_run [Unmount, WebhooksSettled r] st = Some s \<and>
           webhookEvents s = webhookEvents st \<and> sources s = sources st \<and>
           monitor_error s = monitor_error st \<and>
           fetches_pending s = fetches_pending st - 1"
    by (simp add: monitor_unmount_def)
next
  assume "monitor_run (Unmount # es) st = Some st'"
  from unmount_run [OF this]
  show "webhookEvents st' = webhookEvents st" "sources st' = sources st"
    "monitor_error st' = monitor_error st" "monitor_loading st' = monitor_loading st"
    "filterSource st' = filterSource st"
    by simp_all
qed

theorem inflight_response_discarded_witness:
  "mounted (monitor_mount monitor_initial) \<and>
   0 < fetches_pending (monitor_mount monitor_initial) \<and>
   (\<exists>s. monitor_run [Unmount, WebhooksSettled (Inr mockWebhookEvents)]
          (monitor_mount monitor_initial) = Some s \<and>
        webhookEvents s = [] \<and> sources s = [] \<and> monitor_error s = None \<and>
        fetches_pending s = 0)"
proof -
  let ?s0 = "monitor_mount monitor_initial"
  have h: "mounted ?s0 \<and> 0 < fetches_pending ?s0"
    by (simp add: monitor_mount_def fetchWebhookEvents_def monitor_initial_def)
  have c: "webhookEvents ?s0 = [] \<and> sources ?s0 = [] \<and> monitor_error ?s0 = None \<and>
      fetches_pending ?s0 = 1"
    by (simp add: monitor_mount_def fetchWebhookEvents_def monitor_initial_def)
  from inflight_response_discarded [of ?s0 "Inr mockWebhookEvents"] h
  obtain s where "monitor_run [Unmount, WebhooksSettled (Inr mockWebhookEvents)] ?s0 = Some s"
    and "webhookEvents s = webhookEvents ?s0" and "sources s = sources ?s0"
    and "monitor_error s = monitor_error ?s0"
    and "fetches_pending s = fetches_pending ?s0 - 1"
    by blast
  with h c show ?thesis by simp
qed

text \<open>
  C4. Mounting the monitor issues exactly one \<open>getWebhooks\<close> call. With the monitor
  still mounted, 2 calls have been issued once 15000 milliseconds have passed and 3 once
  30000 have; whatever else happens meanwhile, the number of calls after \<open>t\<close>
  milliseconds is \<open>1 + t div 15000\<close>. From the unmount on, at whatever moment of the
  interval it comes, no further call is issued.
\<close>

theorem polling_fetch_counts:
  "fetches_issued (monitor_mount monitor_initial) = 1 \<and>
   fetches_issued (elapse 15000 (monitor_mount monitor_initial)) = 2 \<and>
   fetches_issued (elapse 30000 (monitor_mount monitor_initial)) = 3 \<and>
   (monitor_run es (monitor_mount monitor_initial) = Some st \<and> Unmount \<notin> set es \<longrightarrow>
      fetches_issued st = 1 + total_elapsed es div 15000) \<and>
   (monitor_run (Unmount # es') st0 = Some st' \<longrightarrow> fetches_issued st' = fetches_issued st0)"
proof -
  let ?s0 = "monitor_mount monitor_initial"
  have p: "pollingInterval ?s0 = Some 0" and lt: "0 < polling_period"
    and one: "fetches_issued ?s0 = 1"
    by (simp_all add: monitor_mounted_start polling_period_def)
  have a: "fetches_issued (elapse 15000 ?s0) = 2"
    using elapse_timer [OF p lt, of 15000] one by (simp add: polling_period_def)
  have b: "fetches_issued (elapse 30000 ?s0) = 3"
    using elapse_timer [OF p lt, of 30000] one by (simp add: polling_period_def)
  have c: "monitor_run es ?s0 = Some st \<and> Unmount \<notin> set es \<longrightarrow>
      fetches_issued st = 1 + total_elapsed es div 15000"
  proof
    assume h: "monitor_run es ?s0 = Some st \<and> Unmount \<notin> set es"
    then have r: "monitor_run es ?s0 = Some st" and n: "Unmount \<notin> set es"
      by simp_all
    from polling_run [OF r n p lt] one
    show "fetches_issued st = 1 + total_elapsed es div 15000"
      by (simp add: polling_period_def)
  qed
  have d: "monitor_run (Unmount # es') st0 = Some st' \<longrightarrow> fetches_issued st' = fetches_issued st0"
    using unmount_run [of es' st0 st'] by blast
  from one a b c d show ?thesis by blast
qed

theorem polling_fetch_counts_witness:
  "\<exists>st st'.
     monitor_run [WebhooksSettled (Inr mockWebhookEvents), Elapse 15000, Elapse 15000]
       (monitor_mount monitor_initial) = Some st \<and>
     fetches_issued st = 3 \<and>
     monitor_run [Unmount, Elapse 15000] (monitor_mount monitor_initial) = Some st' \<and>
     fetches_issued st' = 1"
proof -
  let ?s0 = "monitor_mount monitor_initial"
  let ?es = "[WebhooksSettled (Inr mockWebhookEvents), Elapse 15000, Elapse 15000]"
  obtain st where r: "monitor_run ?es ?s0 = Some st"
    by (simp add: monitor_mounted_start)
  have n: "Unmount \<notin> set ?es" by simp
  obtain st' where r': "monitor_run (Unmount # [Elapse 15000]) ?s0 = Some st'"
    by (simp add: monitor_mounted_start)
  have t: "total_elapsed ?es = 30000"
    by (simp add: total_elapsed_def)
  from polling_fetch_counts [of ?es st "[Elapse 15000]" ?s0 st'] r n r' t
  have "fetches_issued st = 3" and "fetches_issued st' = 1"
    by simp_all
  with r r' show ?thesis by blast
qed

end
